theory Spec2Isabelle
  imports Main
begin

section \<open>Command line (the file declaring \<open>Flags\<close> and \<open>ParseArgs\<close>)\<close>

text \<open>
  Go's \<open>int\<close> is modelled as \<open>int\<close>: the only arithmetic the sources perform on it is
  \<open>100 * 1048576\<close>, which fits in 32 bits, so no wrap-around can occur.
\<close>

definition MEGABYTE :: int where
  "MEGABYTE = 1048576"

definition STD_EXC_DIRS :: "string list" where
  "STD_EXC_DIRS = [''.bzr'', ''CVS'', ''.git'', ''.hg'', ''.svn'', ''.idea'', ''.tox'']"

record Flags =
  workers :: int
  nocolor :: bool
  icase :: bool
  exclude :: string
  limitBytes :: int
  matchContext :: bool

record Parameters = Flags +
  startpath :: string
  pattern :: string

text \<open>
  \<open>strings.Split(s, ",")\<close>: the pieces of \<open>s\<close> between commas, one more than there are
  commas; the empty string gives one empty piece.
\<close>

fun Split :: "string \<Rightarrow> string list" where
  "Split [] = [[]]"
| "Split (c # cs) =
     (if c = CHR '','' then [] # Split cs
      else (case Split cs of [] \<Rightarrow> [[c]] | x # xs \<Rightarrow> (c # x) # xs))"

definition GetExcludedDirs :: "'a Flags_scheme \<Rightarrow> string list" where
  "GetExcludedDirs f =
     (if exclude f = [] then STD_EXC_DIRS
      else STD_EXC_DIRS @ Split (exclude f))"

text \<open>
  The command line as package \<open>flag\<close> has tokenised it: the options in the order given
  (an option may repeat, the last one wins) and the positional arguments.
\<close>

datatype opt =
    OptW int
  | OptV bool
  | OptLim int
  | OptI bool
  | OptRaw bool
  | OptExc string
  | OptCtx bool

text \<open>
  The values the flag variables hold once \<open>flag.IntVar\<close>, \<open>flag.BoolVar\<close> and
  \<open>flag.StringVar\<close> have declared them: each declaration stores the default at once.
\<close>

definition declared :: Flags where
  "declared = \<lparr> workers = 100, nocolor = False, icase = False, exclude = [],
                limitBytes = 100, matchContext = False \<rparr>"

text \<open>What \<open>flag.Parse\<close> does for one option; the \<open>bool\<close> is the local \<open>printVersion\<close>.\<close>

fun assign :: "Flags \<times> bool \<Rightarrow> opt \<Rightarrow> Flags \<times> bool" where
  "assign (f, pv) (OptW n) = (f\<lparr>workers := n\<rparr>, pv)"
| "assign (f, pv) (OptV b) = (f, b)"
| "assign (f, pv) (OptLim n) = (f\<lparr>limitBytes := n\<rparr>, pv)"
| "assign (f, pv) (OptI b) = (f\<lparr>icase := b\<rparr>, pv)"
| "assign (f, pv) (OptRaw b) = (f\<lparr>nocolor := b\<rparr>, pv)"
| "assign (f, pv) (OptExc s) = (f\<lparr>exclude := s\<rparr>, pv)"
| "assign (f, pv) (OptCtx b) = (f\<lparr>matchContext := b\<rparr>, pv)"

definition Parse :: "Flags \<times> bool \<Rightarrow> opt list \<Rightarrow> Flags \<times> bool" where
  "Parse s opts = foldl assign s opts"

text \<open>
  \<open>ParseArgs\<close>, statement by statement: the declarations, then
  \<open>f.limitBytes = f.limitBytes * MEGABYTE\<close>, then \<open>flag.Parse()\<close>, then the check of the
  positional arguments. \<open>None\<close> is \<open>PrintBriefHelpAndExit\<close> (exit status 0).
\<close>

definition ParseArgs :: "opt list \<Rightarrow> string list \<Rightarrow> Parameters option" where
  "ParseArgs opts posArgs =
     (let f0 = declared;
          f1 = f0\<lparr>limitBytes := limitBytes f0 * MEGABYTE\<rparr>;
          (f, printVersion) = Parse (f1, False) opts
      in if printVersion \<or> length posArgs < 2 then None
         else Some (Flags.extend f
                \<lparr> startpath = posArgs ! 1, pattern = posArgs ! 0 \<rparr>))"

text \<open>The comma-separated list a user writes for the globs \<open>gs\<close>.\<close>

fun JoinComma :: "string list \<Rightarrow> string" where
  "JoinComma [] = []"
| "JoinComma [g] = g"
| "JoinComma (g # h # gs) = g @ CHR '','' # JoinComma (h # gs)"

section \<open>Output (\<open>printHandler\<close> of mgp.go)\<close>

datatype MessageType = MatchMessage | ErrorMatchMessage | TextMessage

text \<open>
  A line written to the logger. \<open>Sym OK m\<close> is \<open>green(OK)\<close>, a blank and \<open>m\<close>;
  \<open>Sym KO m\<close> is \<open>red(KO)\<close>, a blank and \<open>m\<close>; \<open>Plain m\<close> is \<open>m\<close> alone.
\<close>

datatype symbol = OK | KO

datatype outline = Sym symbol string | Plain string

text \<open>\<open>printHandler\<close>, with the global \<open>coloredOutput\<close> as first argument.\<close>

fun printHandler :: "bool \<Rightarrow> string \<Rightarrow> MessageType \<Rightarrow> outline list" where
  "printHandler coloredOutput message MatchMessage =
     (if coloredOutput then [Sym OK message] else [Plain message])"
| "printHandler coloredOutput message ErrorMatchMessage =
     (if coloredOutput then [Sym KO message] else [])"
| "printHandler coloredOutput message TextMessage = [Plain message]"

text \<open>
  The run's log records each call that writes: a call of \<open>printHandler\<close> with its two
  arguments, or \<open>log.Fatal\<close> with its message. \<open>written\<close> gives the lines that reach the
  output stream.
\<close>

datatype logcall = PrintHandler string MessageType | LogFatal string

fun lines_of :: "bool \<Rightarrow> logcall \<Rightarrow> outline list" where
  "lines_of coloredOutput (PrintHandler message ty) = printHandler coloredOutput message ty"
| "lines_of coloredOutput (LogFatal message) = [Plain message]"

definition written :: "bool \<Rightarrow> logcall list \<Rightarrow> outline list" where
  "written coloredOutput calls = concat (map (lines_of coloredOutput) calls)"

section \<open>The walker's callbacks (\<open>processPath\<close>, \<open>handlePathError\<close> of mgp.go)\<close>

datatype FileMode = ModeRegular | ModeDir | ModeSymlink | ModeDevice

record FileInfo =
  Size :: int
  Mode :: FileMode

definition IsDir :: "FileInfo \<Rightarrow> bool" where
  "IsDir fi = (Mode fi = ModeDir)"

definition IsRegular :: "FileInfo \<Rightarrow> bool" where
  "IsRegular fi = (Mode fi = ModeRegular)"

record Entry =
  Path :: string
  Info :: FileInfo

text \<open>An error of package \<open>os\<close>: what \<open>os.IsNotExist\<close> says of it and its \<open>Error()\<close> text.\<close>

record oserr =
  IsNotExist :: bool
  Error :: string

text \<open>
  What the callback of \<open>filepath.Walk\<close> does: return \<open>nil\<close>, \<open>filepath.SkipDir\<close> or
  another error, or not return at all: \<open>log.Fatal\<close> ends the process with status 1, and
  calling a method of a nil \<open>os.FileInfo\<close> panics.
\<close>

datatype walkret = RetNil | RetSkipDir | RetErr string | Exit1 | NilPanic

text \<open>
  \<open>handlePathError\<close>. The \<open>info\<close> of the callback is nil (\<open>None\<close>) when \<open>Lstat\<close> failed
  and describes the directory when reading its entries failed.
\<close>

definition handlePathError ::
  "FileInfo option \<Rightarrow> string \<Rightarrow> oserr \<Rightarrow> logcall list \<times> walkret" where
  "handlePathError info pathname err =
     (if IsNotExist err then ([LogFatal ''Invalid path''], Exit1)
      else
        let calls = [PrintHandler pathname ErrorMatchMessage,
                     PrintHandler (Error err) TextMessage]
        in (case info of
              None \<Rightarrow> (calls, NilPanic)
            | Some fi \<Rightarrow> (calls, if IsDir fi then RetSkipDir else RetNil)))"

text \<open>
  \<open>filepath.Base\<close> on a slash-separated path: the empty path gives a dot, trailing slashes
  are dropped, the last element is returned, and a path of slashes only gives one slash.
\<close>

definition Base :: "string \<Rightarrow> string" where
  "Base path =
     (if path = [] then ''.''
      else
        let p = rev (dropWhile (\<lambda>c. c = CHR ''/'') (rev path));
            b = rev (takeWhile (\<lambda>c. c \<noteq> CHR ''/'') (rev p))
        in if b = [] then ''/'' else b)"

text \<open>
  The loop of \<open>processPath\<close> over the exclusion globs: \<open>True\<close> when it returns
  \<open>filepath.SkipDir\<close>. \<open>Match\<close> is \<open>filepath.Match\<close> with its error dropped, as
  the code drops it: given a glob and a name it says whether the glob matches.
\<close>

fun skipsDir :: "(string \<Rightarrow> string \<Rightarrow> bool) \<Rightarrow> bool \<Rightarrow> string \<Rightarrow> string list \<Rightarrow> bool" where
  "skipsDir Match isdir pathname [] = False"
| "skipsDir Match isdir pathname (n # exc) =
     (let fullMatch = Match n pathname;
          baseMatch = Match n (Base pathname)
      in if isdir \<and> (fullMatch \<or> baseMatch) then True
         else skipsDir Match isdir pathname exc)"

text \<open>\<open>processPath\<close>: the channel \<open>c\<close> is the list of entries sent so far.\<close>

definition processPath ::
  "(string \<Rightarrow> string \<Rightarrow> bool) \<Rightarrow> FileInfo \<Rightarrow> string \<Rightarrow> Entry list \<Rightarrow> string list \<Rightarrow> int
     \<Rightarrow> Entry list \<times> walkret" where
  "processPath Match info pathname c exc limitMb =
     (let isdir = IsDir info
      in if skipsDir Match isdir pathname exc then (c, RetSkipDir)
         else if \<not> isdir \<and> Size info < limitMb
           then (c @ [\<lparr> Path = pathname, Info = info \<rparr>], RetNil)
         else (c, RetNil))"

section \<open>The worker (\<open>handler\<close> of mgp.go)\<close>

definition NL :: char where
  "NL = CHR 0x0A"

text \<open>
  An open file behind a \<open>bufio.Reader\<close>: the bytes not yet returned, and whether the
  reads of the underlying file fail once these bytes are used up (an I/O error that
  stays) instead of reporting the end of the file.
\<close>

record Reader =
  pending :: string
  failing :: bool

datatype readerr = EOF | ReadFailure

text \<open>The first line of a buffer with its newline, and the rest; \<open>None\<close> without newline.\<close>

fun upToNL :: "string \<Rightarrow> (string \<times> string) option" where
  "upToNL [] = None"
| "upToNL (c # cs) =
     (if c = NL then Some ([c], cs)
      else (case upToNL cs of None \<Rightarrow> None | Some (l, rest) \<Rightarrow> Some (c # l, rest)))"

text \<open>
  \<open>ReadBytes('\n')\<close>: the bytes up to and including the first newline; when the file
  ends or fails first, the bytes read so far together with the error.
\<close>

definition ReadBytes :: "Reader \<Rightarrow> (string \<times> readerr option) \<times> Reader" where
  "ReadBytes rd =
     (case upToNL (pending rd) of
        Some (l, rest) \<Rightarrow> ((l, None), rd\<lparr>pending := rest\<rparr>)
      | None \<Rightarrow> ((pending rd, Some (if failing rd then ReadFailure else EOF)),
                 rd\<lparr>pending := []\<rparr>))"

text \<open>
  The inner loop of \<open>handler\<close>. The compiled pattern \<open>r\<close> is \<open>None\<close> for a nil
  \<open>*regexp.Regexp\<close>, on which \<open>r.Match\<close> panics. The loop need not end, so it runs on
  fuel: \<open>None\<close> says the fuel was used up.
\<close>

datatype scanres = Matched | NoMatch | NilDeref

fun scan :: "nat \<Rightarrow> (string \<Rightarrow> bool) option \<Rightarrow> Reader \<Rightarrow> scanres option" where
  "scan 0 r bufread = None"
| "scan (Suc fuel) r bufread =
     (case ReadBytes bufread of
        ((line, err), bufread') \<Rightarrow>
          if err = Some EOF then Some NoMatch
          else (case r of
                  None \<Rightarrow> Some NilDeref
                | Some re \<Rightarrow> if re line then Some Matched else scan fuel r bufread'))"

text \<open>
  One entry received from the channel: the calls of \<open>printHandler\<close> it makes and whether
  the worker panicked. \<open>Open\<close> is \<open>os.Open\<close>, \<open>None\<close> for an error.
\<close>

definition handleEntry ::
  "nat \<Rightarrow> (string \<Rightarrow> Reader option) \<Rightarrow> (string \<Rightarrow> bool) option \<Rightarrow> Entry
     \<Rightarrow> (logcall list \<times> bool) option" where
  "handleEntry fuel Open r e =
     (let info = Info e; fullpath = Path e
      in if \<not> IsRegular info then Some ([], False)
         else (case Open fullpath of
                 None \<Rightarrow> Some ([], False)
               | Some file \<Rightarrow>
                   (case scan fuel r file of
                      None \<Rightarrow> None
                    | Some Matched \<Rightarrow> Some ([PrintHandler fullpath MatchMessage], False)
                    | Some NoMatch \<Rightarrow> Some ([], False)
                    | Some NilDeref \<Rightarrow> Some ([], True))))"

text \<open>
  The outer loop of \<open>handler\<close> over the entries it receives, until the channel is closed
  and empty. A panic ends the process, so the entries after it are not handled.
\<close>

fun handler ::
  "nat \<Rightarrow> (string \<Rightarrow> Reader option) \<Rightarrow> (string \<Rightarrow> bool) option \<Rightarrow> Entry list
     \<Rightarrow> (logcall list \<times> bool) option" where
  "handler fuel Open r [] = Some ([], False)"
| "handler fuel Open r (e # es) =
     (case handleEntry fuel Open r e of
        None \<Rightarrow> None
      | Some (calls, True) \<Rightarrow> Some (calls, True)
      | Some (calls, False) \<Rightarrow>
          (case handler fuel Open r es of
             None \<Rightarrow> None
           | Some (calls', panicked) \<Rightarrow> Some (calls @ calls', panicked)))"

text \<open>
  The newline-terminated lines of a file's content, each with its newline; \<open>acc\<close> holds
  the part of the current line already passed.
\<close>

fun terminated :: "string \<Rightarrow> string \<Rightarrow> string list" where
  "terminated acc [] = []"
| "terminated acc (c # cs) =
     (if c = NL then (acc @ [c]) # terminated [] cs else terminated (acc @ [c]) cs)"

section \<open>The walk and \<open>Run\<close> (mgp.go)\<close>

text \<open>
  The file tree below the start path, as \<open>filepath.Walk\<close> finds it: a path that is not
  a directory, a directory with its entries in the order \<open>Walk\<close> visits them, a
  directory whose entries cannot be read, and a path on which \<open>Lstat\<close> fails.
\<close>

datatype node =
    File FileInfo
  | Dir FileInfo "(string \<times> node) list"
  | DirErr FileInfo oserr
  | LstatErr oserr

text \<open>What \<open>Lstat\<close> returns for a node: its info, or nil with the error.\<close>

fun infoOf :: "node \<Rightarrow> FileInfo option" where
  "infoOf (File info) = Some info"
| "infoOf (Dir info names) = Some info"
| "infoOf (DirErr info e) = Some info"
| "infoOf (LstatErr e) = None"

text \<open>
  The shared data the walker touches: the stop flag \<open>stopWalk\<close>, the channel \<open>ch\<close> (the
  entries sent and not yet received) and the log.
\<close>

record walker =
  stopWalk :: bool
  ch :: "Entry list"
  log :: "logcall list"

text \<open>The function literal \<open>Run\<close> passes to \<open>filepath.Walk\<close>.\<close>

definition walkFn ::
  "(string \<Rightarrow> string \<Rightarrow> bool) \<Rightarrow> string list \<Rightarrow> int \<Rightarrow> 'a walker_scheme \<Rightarrow> string
     \<Rightarrow> FileInfo option \<Rightarrow> oserr option \<Rightarrow> 'a walker_scheme \<times> walkret" where
  "walkFn Match exludedDirs limitMb w pathname info err =
     (if stopWalk w then (w, RetErr ''user requested termination'')
      else (case err of
              Some e \<Rightarrow>
                (case handlePathError info pathname e of
                   (calls, ret) \<Rightarrow> (w\<lparr>log := log w @ calls\<rparr>, ret))
            | None \<Rightarrow>
                (case info of
                   None \<Rightarrow> (w, NilPanic)
                 | Some fi \<Rightarrow>
                     (case processPath Match fi pathname (ch w) exludedDirs limitMb of
                        (c, ret) \<Rightarrow> (w\<lparr>ch := c\<rparr>, ret)))))"

text \<open>
  \<open>filepath.Clean\<close> on a slash-separated path, element by element: empty elements and
  dots are dropped; a double dot removes the element before it, is dropped at the root
  of a rooted path, and is kept where a path that is not rooted has nothing before it
  but double dots; the elements left are joined by single slashes behind the root's
  slash, and an empty result becomes a dot. \<open>out\<close> holds the elements kept so far, the
  last one first.
\<close>

fun elements :: "string \<Rightarrow> string list" where
  "elements [] = [[]]"
| "elements (c # cs) =
     (if c = CHR ''/'' then [] # elements cs
      else (case elements cs of [] \<Rightarrow> [[c]] | x # xs \<Rightarrow> (c # x) # xs))"

fun cleanElems :: "bool \<Rightarrow> string list \<Rightarrow> string list \<Rightarrow> string list" where
  "cleanElems rooted out [] = rev out"
| "cleanElems rooted out (e # es) =
     (if e = [] \<or> e = ''.'' then cleanElems rooted out es
      else if e = ''..'' then
        (case out of
           [] \<Rightarrow> if rooted then cleanElems rooted [] es else cleanElems rooted [''..''] es
         | a # out' \<Rightarrow>
             if a = ''..'' then cleanElems rooted (''..'' # out) es
             else cleanElems rooted out' es)
      else cleanElems rooted (e # out) es)"

fun slashed :: "string list \<Rightarrow> string" where
  "slashed [] = []"
| "slashed [e] = e"
| "slashed (e # f # es) = e @ CHR ''/'' # slashed (f # es)"

definition Clean :: "string \<Rightarrow> string" where
  "Clean path =
     (let rooted = (path \<noteq> [] \<and> hd path = CHR ''/'');
          out = (if rooted then ''/'' else []) @ slashed (cleanElems rooted [] (elements path))
      in if out = [] then ''.'' else out)"

text \<open>
  \<open>filepath.Join\<close> of a path and the name of one of its entries: the two joined by a
  slash and cleaned, an empty first element being ignored.
\<close>

definition Join :: "string \<Rightarrow> string \<Rightarrow> string" where
  "Join path name =
     (if path \<noteq> [] then Clean (path @ CHR ''/'' # name)
      else if name \<noteq> [] then Clean name
      else [])"

text \<open>
  \<open>filepath.Walk\<close> of the standard library, as the callback sees it. The start path is
  passed on as it is given; the path of every entry is \<open>Join\<close> of its directory's path
  and its name, hence clean. A directory is given to the callback once, with the error of reading its entries if there is one;
  \<open>SkipDir\<close> for a directory, or for a path whose \<open>Lstat\<close> failed, skips that path
  only; any other error ends the walk. A callback that does not return (\<open>Exit1\<close>,
  \<open>NilPanic\<close>) ends it as well.
\<close>

fun walk ::
  "('w \<Rightarrow> string \<Rightarrow> FileInfo option \<Rightarrow> oserr option \<Rightarrow> 'w \<times> walkret)
     \<Rightarrow> string \<Rightarrow> node \<Rightarrow> 'w \<Rightarrow> 'w \<times> walkret"
and walkNames ::
  "('w \<Rightarrow> string \<Rightarrow> FileInfo option \<Rightarrow> oserr option \<Rightarrow> 'w \<times> walkret)
     \<Rightarrow> string \<Rightarrow> (string \<times> node) list \<Rightarrow> 'w \<Rightarrow> 'w \<times> walkret" where
  "walk fn path (File info) w = fn w path (Some info) None"
| "walk fn path (DirErr info e) w = fn w path (Some info) (Some e)"
| "walk fn path (LstatErr e) w = fn w path None (Some e)"
| "walk fn path (Dir info names) w =
     (case fn w path (Some info) None of
        (w1, err1) \<Rightarrow> if err1 \<noteq> RetNil then (w1, err1) else walkNames fn path names w1)"
| "walkNames fn path [] w = (w, RetNil)"
| "walkNames fn path ((name, child) # names) w =
     (case walk fn (Join path name) child w of
        (w1, err) \<Rightarrow>
          if err = RetNil then walkNames fn path names w1
          else if err = RetSkipDir
                  \<and> (case infoOf child of None \<Rightarrow> True | Some fileInfo \<Rightarrow> IsDir fileInfo)
            then walkNames fn path names w1
          else (w1, err))"

definition Walk ::
  "string \<Rightarrow> node
     \<Rightarrow> ('w \<Rightarrow> string \<Rightarrow> FileInfo option \<Rightarrow> oserr option \<Rightarrow> 'w \<times> walkret)
     \<Rightarrow> 'w \<Rightarrow> 'w \<times> walkret" where
  "Walk root tree fn w =
     (case walk fn root tree w of
        (w1, err) \<Rightarrow> (w1, if err = RetSkipDir then RetNil else err))"

text \<open>
  What the run depends on outside the repository: \<open>regexp.Compile\<close> (\<open>None\<close> for a
  pattern it rejects), \<open>filepath.Match\<close>, the tree at the start path and \<open>os.Open\<close>.
\<close>

record world =
  Compile :: "string \<Rightarrow> (string \<Rightarrow> bool) option"
  Match :: "string \<Rightarrow> string \<Rightarrow> bool"
  Tree :: node
  Open :: "string \<Rightarrow> Reader option"

datatype ending = Returns | Exits | Panics

text \<open>
  \<open>Run\<close> when no signal arrives, under the schedule in which the workers receive their
  entries after the walk: how the run ends and the calls it logged; the lines on the
  output are \<open>written colors\<close> of these calls. \<open>None\<close>: the run does not end (a worker
  loops for ever, or nobody receives from a full channel). A negative number of workers
  panics in \<open>make(chan bool, workers)\<close>.
\<close>

definition Run ::
  "world \<Rightarrow> nat \<Rightarrow> int \<Rightarrow> bool \<Rightarrow> bool \<Rightarrow> string \<Rightarrow> string \<Rightarrow> string list \<Rightarrow> int
     \<Rightarrow> (ending \<times> logcall list) option" where
  "Run env fuel workers' caseInsensitive colors startpath' pattern' exludedDirs limitMb =
     (let pattern1 = (if caseInsensitive then ''(?i)'' @ pattern' else pattern');
          r = Compile env pattern1
      in if workers' < 0 then Some (Panics, [])
         else
           (case Walk startpath' (Tree env) (walkFn (Match env) exludedDirs limitMb)
                   \<lparr> stopWalk = False, ch = [], log = [] \<rparr> of
              (w, err) \<Rightarrow>
                if err = Exit1 then Some (Exits, log w)
                else if err = NilPanic then Some (Panics, log w)
                else if workers' = 0
                  then (if length (ch w) > 5000 then None else Some (Returns, log w))
                else (case handler fuel (Open env) r (ch w) of
                        None \<Rightarrow> None
                      | Some (calls, panicked) \<Rightarrow>
                          Some (if panicked then Panics else Returns, log w @ calls))))"

section \<open>\<open>Run\<close> with its goroutines interleaved\<close>

text \<open>
  The state the goroutines of \<open>Run\<close> share, on top of the walker's: whether the
  goroutine of \<open>setSignalHandlers\<close> still waits for a signal, how many tokens it has yet
  to send and how many lie in \<open>closeSignalChan\<close>, whether the two channels are closed,
  whether \<open>filepath.Walk\<close> is still running, how many workers have not returned (the
  wait group), how many of them are caught in a read loop that never ends, and how the
  process ended, if it has.
\<close>

record run = walker +
  sigWaiting :: bool
  toSend :: nat
  closeSignalChan :: nat
  closeSignalClosed :: bool
  chClosed :: bool
  walking :: bool
  running :: nat
  stuck :: nat
  ended :: "ending option"

text \<open>What stays fixed during a run.\<close>

record config =
  osOpen :: "string \<Rightarrow> Reader option"
  glob :: "string \<Rightarrow> string \<Rightarrow> bool"
  compiled :: "(string \<Rightarrow> bool) option"
  patience :: nat
  nworkers :: nat
  excluded :: "string list"
  limit :: int

text \<open>
  One label for each thing a goroutine does to the shared state: the signal goroutine
  receives the signal and sets \<open>*stopWalk\<close> (\<open>Signal\<close>) and sends one token (\<open>Send\<close>);
  \<open>Walk\<close> calls the callback for a path (\<open>Visit\<close>) or returns (\<open>WalkEnds\<close>); \<open>Run\<close> closes
  the channel (\<open>CloseCh\<close>), gets past \<open>wg.Wait\<close> and closes \<open>closeSignalChan\<close> (\<open>Waited\<close>)
  and runs its last statement (\<open>Finish\<close>); a worker's \<open>select\<close> receives a token
  (\<open>Cancel\<close>), receives an entry and handles it (\<open>Receive\<close>), finds the channel closed
  and empty (\<open>Drained\<close>), or takes the default case (\<open>Spin\<close>). Which paths \<open>Walk\<close> visits
  is left open, so the runs of the program are among the runs of this model.
\<close>

datatype label =
    Signal
  | Send
  | Visit string "FileInfo option" "oserr option"
  | WalkEnds
  | CloseCh
  | Cancel
  | Receive
  | Drained
  | Spin
  | Waited
  | Finish

text \<open>The state when \<open>Run\<close> has started its workers and is about to walk.\<close>

definition start :: "config \<Rightarrow> run" where
  "start c = \<lparr> stopWalk = False, ch = [], log = [], sigWaiting = True, toSend = 0,
               closeSignalChan = 0, closeSignalClosed = False, chClosed = False,
               walking = True, running = nworkers c, stuck = 0, ended = None \<rparr>"

text \<open>
  One step; \<open>None\<close> when the goroutine cannot take it in this state. A send on the
  closed \<open>closeSignalChan\<close> panics. The capacity of \<open>ch\<close> is left out: an entry whose
  send has to wait for room stands at the end of the queue, where it will be once
  there is room, so a waiting send adds no run that the model does not have.
\<close>

fun step :: "config \<Rightarrow> label \<Rightarrow> run \<Rightarrow> run option" where
  "step c Signal s =
     (if ended s = None \<and> sigWaiting s
      then Some (s\<lparr>stopWalk := True, sigWaiting := False, toSend := nworkers c\<rparr>)
      else None)"
| "step c Send s =
     (if ended s = None \<and> 0 < toSend s
      then (if closeSignalClosed s then Some (s\<lparr>ended := Some Panics\<rparr>)
            else Some (s\<lparr>toSend := toSend s - 1, closeSignalChan := closeSignalChan s + 1\<rparr>))
      else None)"
| "step c (Visit pathname info err) s =
     (if ended s = None \<and> walking s
      then (case walkFn (glob c) (excluded c) (limit c) s pathname info err of
              (s1, ret) \<Rightarrow>
                (case ret of
                   RetNil \<Rightarrow> Some s1
                 | RetSkipDir \<Rightarrow> Some s1
                 | RetErr m \<Rightarrow> Some (s1\<lparr>walking := False\<rparr>)
                 | Exit1 \<Rightarrow> Some (s1\<lparr>ended := Some Exits\<rparr>)
                 | NilPanic \<Rightarrow> Some (s1\<lparr>ended := Some Panics\<rparr>)))
      else None)"
| "step c WalkEnds s =
     (if ended s = None \<and> walking s then Some (s\<lparr>walking := False\<rparr>) else None)"
| "step c CloseCh s =
     (if ended s = None \<and> \<not> walking s \<and> \<not> chClosed s then Some (s\<lparr>chClosed := True\<rparr>)
      else None)"
| "step c Cancel s =
     (if ended s = None \<and> stuck s < running s \<and> 0 < closeSignalChan s
      then Some (s\<lparr>closeSignalChan := closeSignalChan s - 1, running := running s - 1\<rparr>)
      else None)"
| "step c Receive s =
     (if ended s = None \<and> stuck s < running s
      then (case ch s of
              [] \<Rightarrow> None
            | e # es \<Rightarrow>
                (case handleEntry (patience c) (osOpen c) (compiled c) e of
                   None \<Rightarrow> Some (s\<lparr>ch := es, stuck := stuck s + 1\<rparr>)
                 | Some (calls, panicked) \<Rightarrow>
                     Some (s\<lparr>ch := es, log := log s @ calls,
                              ended := if panicked then Some Panics else None\<rparr>)))
      else None)"
| "step c Drained s =
     (if ended s = None \<and> stuck s < running s \<and> ch s = [] \<and> chClosed s
      then Some (s\<lparr>running := running s - 1\<rparr>)
      else None)"
| "step c Spin s =
     (if ended s = None \<and> stuck s < running s \<and> ch s = [] \<and> \<not> chClosed s
         \<and> closeSignalChan s = 0
      then Some s else None)"
| "step c Waited s =
     (if ended s = None \<and> \<not> walking s \<and> chClosed s \<and> running s = 0 \<and> \<not> closeSignalClosed s
      then Some (s\<lparr>closeSignalClosed := True\<rparr>)
      else None)"
| "step c Finish s =
     (if ended s = None \<and> closeSignalClosed s
      then Some (s\<lparr>log := (if stopWalk s then log s @ [PrintHandler ''Ended by user'' TextMessage]
                             else log s),
                    ended := Some Returns\<rparr>)
      else None)"

fun exec :: "config \<Rightarrow> label list \<Rightarrow> run \<Rightarrow> run option" where
  "exec c [] s = Some s"
| "exec c (l # ls) s = (case step c l s of None \<Rightarrow> None | Some s1 \<Rightarrow> exec c ls s1)"

text \<open>How often the stop flag goes from false to true, and from true to false, in a run.\<close>

fun flips :: "config \<Rightarrow> label list \<Rightarrow> run \<Rightarrow> nat" where
  "flips c [] s = 0"
| "flips c (l # ls) s =
     (case step c l s of
        None \<Rightarrow> 0
      | Some s1 \<Rightarrow> (if \<not> stopWalk s \<and> stopWalk s1 then 1 else 0) + flips c ls s1)"

fun resets :: "config \<Rightarrow> label list \<Rightarrow> run \<Rightarrow> nat" where
  "resets c [] s = 0"
| "resets c (l # ls) s =
     (case step c l s of
        None \<Rightarrow> 0
      | Some s1 \<Rightarrow> (if stopWalk s \<and> \<not> stopWalk s1 then 1 else 0) + resets c ls s1)"

text \<open>
  For the runs of the interleaved model. An entry emits when the worker that receives
  it logs a Match event for its path.
\<close>

definition emits :: "config \<Rightarrow> Entry \<Rightarrow> bool" where
  "emits c e =
     (handleEntry (patience c) (osOpen c) (compiled c) e
        = Some ([PrintHandler (Path e) MatchMessage], False))"

text \<open>The entries sent on the channel in the course of a run, in order.\<close>

fun sent :: "config \<Rightarrow> label list \<Rightarrow> run \<Rightarrow> Entry list" where
  "sent c [] s = []"
| "sent c (l # ls) s =
     (case step c l s of
        None \<Rightarrow> []
      | Some s1 \<Rightarrow> drop (length (ch s)) (ch s1) @ sent c ls s1)"

text \<open>
  The Match events for the path \<open>p\<close> among some calls, plus the entries for \<open>p\<close> among
  some entries that emit.
\<close>

definition tally :: "config \<Rightarrow> string \<Rightarrow> logcall list \<Rightarrow> Entry list \<Rightarrow> nat" where
  "tally c p calls es =
     count_list calls (PrintHandler p MatchMessage)
       + length (filter (\<lambda>e. Path e = p \<and> emits c e) es)"

text \<open>
  What holds of every state as long as no signal has been delivered: no token exists, a
  worker has returned only once the channel was closed and empty, the channel is closed
  only after the walk, and \<open>Run\<close> gets past \<open>wg.Wait\<close> only when all workers have returned.
\<close>

definition quiet :: "config \<Rightarrow> run \<Rightarrow> bool" where
  "quiet c s =
     (sigWaiting s \<and> toSend s = 0 \<and> closeSignalChan s = 0 \<and>
      (running s < nworkers c \<longrightarrow> chClosed s \<and> ch s = []) \<and>
      (chClosed s \<longrightarrow> \<not> walking s) \<and>
      (closeSignalClosed s \<longrightarrow> running s = 0 \<and> chClosed s) \<and>
      (ended s = Some Returns \<longrightarrow> closeSignalClosed s) \<and>
      running s \<le> nworkers c)"

section \<open>What a run is expected to scan and report\<close>

text \<open>
  The notions the statements about whole runs are phrased in. A directory is excluded
  when a glob of the exclusion list matches its path or its base name.
\<close>

definition excludedDir :: "(string \<Rightarrow> string \<Rightarrow> bool) \<Rightarrow> string list \<Rightarrow> string \<Rightarrow> bool" where
  "excludedDir gm exc path = list_ex (\<lambda>n. gm n path \<or> gm n (Base path)) exc"

text \<open>
  The entries for the paths of a tree that are not directories, are smaller than the
  limit and lie below no excluded and no unreadable directory, in the order of the walk.
\<close>

fun scanned ::
  "(string \<Rightarrow> string \<Rightarrow> bool) \<Rightarrow> string list \<Rightarrow> int \<Rightarrow> string \<Rightarrow> node \<Rightarrow> Entry list"
and scannedNames ::
  "(string \<Rightarrow> string \<Rightarrow> bool) \<Rightarrow> string list \<Rightarrow> int \<Rightarrow> string \<Rightarrow> (string \<times> node) list
     \<Rightarrow> Entry list" where
  "scanned gm exc lim path (File info) =
     (if \<not> IsDir info \<and> Size info < lim then [\<lparr> Path = path, Info = info \<rparr>] else [])"
| "scanned gm exc lim path (Dir info names) =
     (if excludedDir gm exc path then [] else scannedNames gm exc lim path names)"
| "scanned gm exc lim path (DirErr info e) = []"
| "scanned gm exc lim path (LstatErr e) = []"
| "scannedNames gm exc lim path [] = []"
| "scannedNames gm exc lim path ((name, child) # names) =
     scanned gm exc lim (Join path name) child @ scannedNames gm exc lim path names"

text \<open>
  The error reports for the unreadable directories that lie below no excluded one. An
  unreadable directory is reported even when it is excluded itself: \<open>Walk\<close> reads its
  entries before it calls the callback, which then sees the error first.
\<close>

fun reported :: "(string \<Rightarrow> string \<Rightarrow> bool) \<Rightarrow> string list \<Rightarrow> string \<Rightarrow> node \<Rightarrow> logcall list"
and reportedNames ::
  "(string \<Rightarrow> string \<Rightarrow> bool) \<Rightarrow> string list \<Rightarrow> string \<Rightarrow> (string \<times> node) list \<Rightarrow> logcall list" where
  "reported gm exc path (File info) = []"
| "reported gm exc path (Dir info names) =
     (if excludedDir gm exc path then [] else reportedNames gm exc path names)"
| "reported gm exc path (DirErr info e) =
     [PrintHandler path ErrorMatchMessage, PrintHandler (Error e) TextMessage]"
| "reported gm exc path (LstatErr e) = []"
| "reportedNames gm exc path [] = []"
| "reportedNames gm exc path ((name, child) # names) =
     reported gm exc (Join path name) child @ reportedNames gm exc path names"

text \<open>
  A tree without fatal path errors: \<open>Lstat\<close> succeeds everywhere, no directory has
  vanished when its entries are read, and each info agrees with the kind of its node.
\<close>

fun benign :: "node \<Rightarrow> bool"
and benignNames :: "(string \<times> node) list \<Rightarrow> bool" where
  "benign (File info) = (\<not> IsDir info)"
| "benign (Dir info names) = (IsDir info \<and> benignNames names)"
| "benign (DirErr info e) = (IsDir info \<and> \<not> IsNotExist e)"
| "benign (LstatErr e) = False"
| "benignNames [] = True"
| "benignNames ((name, child) # names) = (benign child \<and> benignNames names)"

text \<open>
  An entry hits when it is a regular file that opens and has a newline-terminated line
  the pattern matches; it is tested when the worker reaches its first call of
  \<open>r.Match\<close> for it; it is readable when no read of it fails.
\<close>

definition hit :: "(string \<Rightarrow> Reader option) \<Rightarrow> (string \<Rightarrow> bool) \<Rightarrow> Entry \<Rightarrow> bool" where
  "hit opn re e =
     (IsRegular (Info e) \<and>
      (case opn (Path e) of
         None \<Rightarrow> False
       | Some file \<Rightarrow> list_ex re (terminated [] (pending file))))"

definition tested :: "(string \<Rightarrow> Reader option) \<Rightarrow> Entry \<Rightarrow> bool" where
  "tested opn e =
     (IsRegular (Info e) \<and>
      (case opn (Path e) of
         None \<Rightarrow> False
       | Some file \<Rightarrow> snd (fst (ReadBytes file)) \<noteq> Some EOF))"

definition readable :: "(string \<Rightarrow> Reader option) \<Rightarrow> Entry \<Rightarrow> bool" where
  "readable opn e = (case opn (Path e) of None \<Rightarrow> True | Some file \<Rightarrow> \<not> failing file)"

text \<open>Fuel that suffices for the worker to finish the readable entries of a list.\<close>

definition fuelFor :: "(string \<Rightarrow> Reader option) \<Rightarrow> Entry list \<Rightarrow> nat" where
  "fuelFor opn es =
     Suc (sum_list (map (\<lambda>e. case opn (Path e) of
                                None \<Rightarrow> 0
                              | Some file \<Rightarrow> length (terminated [] (pending file))) es))"

text \<open>The walker's data after it has sent the entries \<open>es\<close> and logged \<open>calls\<close>.\<close>

definition after :: "'a walker_scheme \<Rightarrow> Entry list \<Rightarrow> logcall list \<Rightarrow> 'a walker_scheme" where
  "after w es calls = w\<lparr>ch := ch w @ es, log := log w @ calls\<rparr>"

text \<open>
  The schedule that \<open>Run\<close> above follows, as a run of the interleaved model: the visits
  of the walk on a tree without fatal errors, the end of the walk, one worker receiving
  every entry, the closing of the channel, all workers returning, and the end of \<open>Run\<close>.
\<close>

fun trail :: "(string \<Rightarrow> string \<Rightarrow> bool) \<Rightarrow> string list \<Rightarrow> string \<Rightarrow> node \<Rightarrow> label list"
and trailNames ::
  "(string \<Rightarrow> string \<Rightarrow> bool) \<Rightarrow> string list \<Rightarrow> string \<Rightarrow> (string \<times> node) list \<Rightarrow> label list" where
  "trail gm exc path (File info) = [Visit path (Some info) None]"
| "trail gm exc path (Dir info names) =
     Visit path (Some info) None
       # (if excludedDir gm exc path then [] else trailNames gm exc path names)"
| "trail gm exc path (DirErr info e) = [Visit path (Some info) (Some e)]"
| "trail gm exc path (LstatErr e) = [Visit path None (Some e)]"
| "trailNames gm exc path [] = []"
| "trailNames gm exc path ((name, child) # names) =
     trail gm exc (Join path name) child @ trailNames gm exc path names"

definition schedule :: "config \<Rightarrow> string \<Rightarrow> node \<Rightarrow> label list" where
  "schedule c root tree =
     trail (glob c) (excluded c) root tree @ [WalkEnds]
       @ replicate (length (scanned (glob c) (excluded c) (limit c) root tree)) Receive
       @ [CloseCh] @ replicate (nworkers c) Drained @ [Waited, Finish]"

text \<open>The configuration of the interleaved model for the arguments of \<open>Run\<close>.\<close>

definition configOf ::
  "world \<Rightarrow> nat \<Rightarrow> int \<Rightarrow> bool \<Rightarrow> string \<Rightarrow> string list \<Rightarrow> int \<Rightarrow> config" where
  "configOf env fuel nw ci pat exc lim =
     \<lparr> osOpen = Open env, glob = Match env,
       compiled = Compile env (if ci then ''(?i)'' @ pat else pat),
       patience = fuel, nworkers = nat nw, excluded = exc, limit = lim \<rparr>"

section \<open>The earlier worker (the file with \<open>main\<close>)\<close>

text \<open>\<open>os.ReadFile\<close>: the whole content, or an error when a read fails.\<close>

definition ReadFile :: "(string \<Rightarrow> Reader option) \<Rightarrow> string \<Rightarrow> string option" where
  "ReadFile opn name =
     (case opn name of
        None \<Rightarrow> None
      | Some file \<Rightarrow> if failing file then None else Some (pending file))"

text \<open>
  One turn of the loop of the earlier \<open>handler\<close>, for the path received: the lines it
  writes and whether it panicked. \<open>stat\<close> is \<open>os.Stat\<close>.
\<close>

definition handlePath ::
  "(string \<Rightarrow> FileInfo option) \<Rightarrow> (string \<Rightarrow> Reader option) \<Rightarrow> (string \<Rightarrow> bool) option
     \<Rightarrow> string \<Rightarrow> outline list \<times> bool" where
  "handlePath stat opn r filepath =
     (case stat filepath of
        None \<Rightarrow> ([], False)
      | Some fi \<Rightarrow>
          if \<not> IsRegular fi then ([], False)
          else (case ReadFile opn filepath of
                  None \<Rightarrow> ([], False)
                | Some filedata \<Rightarrow>
                    (case r of
                       None \<Rightarrow> ([], True)
                     | Some re \<Rightarrow>
                         if re filedata then ([Sym OK filepath], False) else ([], False))))"

section \<open>Instances of the library functions for concrete runs\<close>

text \<open>
  A pattern without metacharacters matches the inputs that contain it; a glob without
  metacharacters matches the name equal to it.
\<close>

fun isPrefix :: "string \<Rightarrow> string \<Rightarrow> bool" where
  "isPrefix [] s = True"
| "isPrefix (p # ps) [] = False"
| "isPrefix (p # ps) (c # cs) = (p = c \<and> isPrefix ps cs)"

fun contains :: "string \<Rightarrow> string \<Rightarrow> bool" where
  "contains p [] = (p = [])"
| "contains p (c # cs) = (isPrefix p (c # cs) \<or> contains p cs)"

definition literalGlob :: "string \<Rightarrow> string \<Rightarrow> bool" where
  "literalGlob n name = (n = name)"

definition regular :: "int \<Rightarrow> FileInfo" where
  "regular n = \<lparr> Size = n, Mode = ModeRegular \<rparr>"

definition directory :: FileInfo where
  "directory = \<lparr> Size = 4096, Mode = ModeDir \<rparr>"

definition complete :: "string \<Rightarrow> Reader" where
  "complete s = \<lparr> pending = s, failing = False \<rparr>"

definition denied :: oserr where
  "denied = \<lparr> IsNotExist = False, Error = ''open /srv/private: permission denied'' \<rparr>"

text \<open>
  \<open>regexp.Compile\<close> on the patterns of the concrete runs: a pattern without
  metacharacters compiles to the search for it, and an opening parenthesis alone is
  rejected. The runs use no other pattern with a metacharacter; this instance rejects
  them all.
\<close>

definition metachars :: string where
  "metachars = CHR 0x5C # ''.+*?()|[]{}^$''"

definition literalCompile :: "string \<Rightarrow> (string \<Rightarrow> bool) option" where
  "literalCompile p = (if list_ex (\<lambda>c. c \<in> set metachars) p then None else Some (contains p))"

text \<open>A directory \<open>repo\<close> holding the one regular file \<open>a.txt\<close> with the given content.\<close>

definition oneFile :: "string \<Rightarrow> world" where
  "oneFile content =
     \<lparr> Compile = literalCompile, Match = literalGlob,
       Tree = Dir directory [(''a.txt'', File (regular (int (length content))))],
       Open = (\<lambda>name. if name = ''repo/a.txt'' then Some (complete content) else None) \<rparr>"



text \<open>A directory \<open>repo\<close> whose directory \<open>vendor\<close> holds one regular file.\<close>

definition vendorTree :: node where
  "vendorTree = Dir directory [(''vendor'', Dir directory [(''x.txt'', File (regular 4))])]"

definition w0 :: walker where
  "w0 = \<lparr> stopWalk = False, ch = [], log = [] \<rparr>"

text \<open>Two workers, and a run of theirs that a signal interrupts after the first match.\<close>

definition twoWorkers :: config where
  "twoWorkers =
     \<lparr> osOpen = (\<lambda>name. Some (complete ''foo\<newline>'')), glob = literalGlob,
       compiled = Some (contains ''foo''), patience = 3, nworkers = 2,
       excluded = STD_EXC_DIRS, limit = 100 \<rparr>"

definition interrupted :: "label list" where
  "interrupted =
     [Visit ''repo'' (Some directory) None, Visit ''repo/a.txt'' (Some (regular 4)) None,
      Receive, Spin, Signal, Send, Cancel, Send,
      Visit ''repo/b.txt'' (Some (regular 4)) None, CloseCh, Cancel, Waited, Finish]"

section \<open>Properties\<close>

text \<open>\<open>Clean\<close> and \<open>Join\<close> on the cases that the documentation of the library lists.\<close>

lemma Clean_examples:
  "Clean [] = ''.''" "Clean ''abc'' = ''abc''" "Clean ''abc/def'' = ''abc/def''"
  "Clean ''.'' = ''.''" "Clean ''..'' = ''..''" "Clean ''../../abc'' = ''../../abc''"
  "Clean ''/'' = ''/''" "Clean ''/abc'' = ''/abc''" "Clean ''abc/'' = ''abc''"
  "Clean ''./'' = ''.''" "Clean ''../'' = ''..''" "Clean ''/abc/'' = ''/abc''"
  "Clean ''abc//def//ghi'' = ''abc/def/ghi''" "Clean ''//abc//'' = ''/abc''"
  "Clean ''abc/./def'' = ''abc/def''" "Clean ''/./abc/def'' = ''/abc/def''"
  "Clean ''abc/def/ghi/../jkl'' = ''abc/def/jkl''" "Clean ''abc/def/../..'' = ''.''"
  "Clean ''/abc/def/../..'' = ''/''" "Clean ''abc/def/../../..'' = ''..''"
  "Clean ''/abc/def/../../..'' = ''/''" "Clean ''/../abc'' = ''/abc''"
  "Clean ''abc/def/../../../ghi/jkl/../../../mno'' = ''../../mno''"
  "Clean ''abc/../../././../def'' = ''../../def''"
  by (simp_all add: Clean_def)

lemma Join_examples:
  "Join ''repo'' ''a.txt'' = ''repo/a.txt''" "Join ''./repo'' ''a.txt'' = ''repo/a.txt''"
  "Join ''repo//'' ''a.txt'' = ''repo/a.txt''" "Join ''a/../repo'' ''sub'' = ''repo/sub''"
  "Join ''.'' ''a.txt'' = ''a.txt''" "Join ''/'' ''a.txt'' = ''/a.txt''"
  "Join ''..'' ''a.txt'' = ''../a.txt''" "Join [] ''a.txt'' = ''a.txt''"
  by (simp_all add: Join_def Clean_def)

lemma Split_not_Nil: "Split s \<noteq> []"
  by (induction s) (auto split: list.splits)

lemma Split_Cons_other:
  "c \<noteq> CHR '','' \<Longrightarrow> Split (c # cs) = (c # hd (Split cs)) # tl (Split cs)"
  using Split_not_Nil [of cs] by (cases "Split cs") auto

lemma Split_append_comma_free:
  "CHR '','' \<notin> set g \<Longrightarrow> Split (g @ s) = (g @ hd (Split s)) # tl (Split s)"
proof (induction g)
  case Nil
  then show ?case using Split_not_Nil [of s] by (cases "Split s") auto
next
  case (Cons c g)
  then have c: "c \<noteq> CHR '',''" and g: "CHR '','' \<notin> set g" by auto
  show ?case using Cons.IH [OF g] Split_Cons_other [OF c, of "g @ s"] by simp
qed

lemma Split_comma_free: "CHR '','' \<notin> set g \<Longrightarrow> Split g = [g]"
  using Split_append_comma_free [of g "[]"] by simp

lemma Split_JoinComma:
  "gs \<noteq> [] \<Longrightarrow> \<forall>g \<in> set gs. CHR '','' \<notin> set g \<Longrightarrow> Split (JoinComma gs) = gs"
proof (induction gs rule: JoinComma.induct)
  case 1
  then show ?case by simp
next
  case (2 g)
  then show ?case by (simp add: Split_comma_free)
next
  case (3 g h gs)
  then have ih: "Split (JoinComma (h # gs)) = h # gs" by simp
  from 3 have g: "CHR '','' \<notin> set g" by simp
  have "Split (g @ CHR '','' # JoinComma (h # gs)) =
          (g @ hd (Split (CHR '','' # JoinComma (h # gs))))
            # tl (Split (CHR '','' # JoinComma (h # gs)))"
    by (rule Split_append_comma_free [OF g])
  then show ?case using ih by simp
qed

text \<open>
  C6: the exclusion list always starts with the seven default globs; it is these alone
  when \<open>-exc\<close> is not given or empty, and when the user gives \<open>-exc\<close> a non-empty
  comma-separated list of globs \<open>gs\<close>, it is the defaults followed by exactly those
  globs, in order.
\<close>

theorem GetExcludedDirs_defaults_then_user:
  "set STD_EXC_DIRS \<subseteq> set (GetExcludedDirs f) \<and>
   set STD_EXC_DIRS = {''.bzr'', ''CVS'', ''.git'', ''.hg'', ''.svn'', ''.idea'', ''.tox''} \<and>
   (exclude f = [] \<longrightarrow> GetExcludedDirs f = STD_EXC_DIRS) \<and>
   (gs \<noteq> [] \<and> (\<forall>g \<in> set gs. CHR '','' \<notin> set g) \<and> exclude f = JoinComma gs \<and> exclude f \<noteq> []
      \<longrightarrow> GetExcludedDirs f = STD_EXC_DIRS @ gs)"
proof (intro conjI impI)
  show "set STD_EXC_DIRS \<subseteq> set (GetExcludedDirs f)"
    by (simp add: GetExcludedDirs_def)
  show "set STD_EXC_DIRS = {''.bzr'', ''CVS'', ''.git'', ''.hg'', ''.svn'', ''.idea'', ''.tox''}"
    by (simp add: STD_EXC_DIRS_def)
  show "GetExcludedDirs f = STD_EXC_DIRS" if "exclude f = []"
    using that by (simp add: GetExcludedDirs_def)
next
  assume a: "gs \<noteq> [] \<and> (\<forall>g \<in> set gs. CHR '','' \<notin> set g) \<and> exclude f = JoinComma gs
             \<and> exclude f \<noteq> []"
  then have "Split (exclude f) = gs" using Split_JoinComma [of gs] by simp
  moreover from a have "exclude f \<noteq> []" by blast
  ultimately show "GetExcludedDirs f = STD_EXC_DIRS @ gs"
    by (simp add: GetExcludedDirs_def)
qed

theorem GetExcludedDirs_defaults_then_user_witness:
  "GetExcludedDirs (declared\<lparr>exclude := ''node_modules,*.log''\<rparr>)
     = [''.bzr'', ''CVS'', ''.git'', ''.hg'', ''.svn'', ''.idea'', ''.tox'',
        ''node_modules'', ''*.log'']"
proof -
  have "JoinComma [''node_modules'', ''*.log''] = ''node_modules,*.log''" by simp
  then show ?thesis
    using GetExcludedDirs_defaults_then_user
      [of "declared\<lparr>exclude := ''node_modules,*.log''\<rparr>" "[''node_modules'', ''*.log'']"]
    by (simp add: STD_EXC_DIRS_def)
qed

lemma Parse_append: "Parse s (opts @ [x]) = assign (Parse s opts) x"
  by (simp add: Parse_def)

lemma ParseArgs_last_lim:
  "ParseArgs (opts @ [OptLim v]) posArgs = Some p \<Longrightarrow> limitBytes p = v"
  by (cases "Parse (declared\<lparr>limitBytes := limitBytes declared * MEGABYTE\<rparr>, False) opts")
    (auto simp: ParseArgs_def Parse_append Let_def Flags.defs split: if_splits)

text \<open>
  C5: with \<open>-lim 5\<close> the limit handed on is 5, not 5 megabytes in bytes: the
  multiplication by \<open>MEGABYTE\<close> is done on the default, before \<open>flag.Parse\<close> stores the
  user's value. Without \<open>-lim\<close> the limit is 100 megabytes in bytes.
\<close>

theorem ParseArgs_lim_not_converted:
  "map_option limitBytes (ParseArgs [OptLim 5] [''foo'', ''.'']) = Some 5 \<and>
   5 * MEGABYTE = 5242880 \<and>
   map_option limitBytes (ParseArgs [] [''foo'', ''.'']) = Some 104857600"
  by (simp add: ParseArgs_def Parse_def declared_def MEGABYTE_def Flags.defs)

lemma handlePathError_written:
  "\<not> IsNotExist e \<Longrightarrow>
   written True (fst (handlePathError info pathname e)) = [Sym KO pathname, Plain (Error e)] \<and>
   written False (fst (handlePathError info pathname e)) = [Plain (Error e)]"
  by (cases info) (simp_all add: handlePathError_def written_def Let_def)

text \<open>
  C9: with colored output the error of a path is written as the failure symbol with
  the path and then the error text; without colored output only the error text is
  written, and no line carries the path.
\<close>

theorem handlePathError_raw_output_lacks_path:
  "written True (fst (handlePathError (Some directory) ''/srv/private'' denied))
     = [Sym KO ''/srv/private'', Plain ''open /srv/private: permission denied''] \<and>
   written False (fst (handlePathError (Some directory) ''/srv/private'' denied))
     = [Plain ''open /srv/private: permission denied''] \<and>
   printHandler False ''/srv/private'' MatchMessage = [Plain ''/srv/private'']"
  by (simp add: handlePathError_def written_def denied_def directory_def IsDir_def)

lemma skipsDir_iff:
  "skipsDir gm isdir pathname exc
     = (isdir \<and> list_ex (\<lambda>n. gm n pathname \<or> gm n (Base pathname)) exc)"
  by (induction exc) (auto simp: Let_def)

text \<open>
  C2, as the code has it: a path the walker visits without error while the stop flag is
  unset is sent on the channel exactly when it is not a directory and its size is below
  the limit. The exclusion globs decide one thing only, whether a directory is skipped;
  nothing else is logged or changed.
\<close>

theorem walkFn_enqueues_iff:
  assumes "\<not> stopWalk w"
    and "walkFn gm exc limitMb w pathname (Some info) None = (w1, ret)"
  shows "ch w1 = (if \<not> IsDir info \<and> Size info < limitMb
                  then ch w @ [\<lparr> Path = pathname, Info = info \<rparr>] else ch w)
       \<and> (ret = RetSkipDir) = (IsDir info \<and> list_ex (\<lambda>n. gm n pathname \<or> gm n (Base pathname)) exc)
       \<and> (ret = RetSkipDir \<or> ret = RetNil)
       \<and> log w1 = log w \<and> stopWalk w1 = stopWalk w"
  using assms
  by (auto simp: walkFn_def processPath_def skipsDir_iff Let_def split: if_splits)

theorem walkFn_enqueues_iff_witness:
  "ch (fst (walkFn literalGlob STD_EXC_DIRS 100 \<lparr> stopWalk = False, ch = [], log = [] \<rparr>
             ''repo/link'' (Some \<lparr> Size = 9, Mode = ModeSymlink \<rparr>) None))
     = [\<lparr> Path = ''repo/link'', Info = \<lparr> Size = 9, Mode = ModeSymlink \<rparr> \<rparr>]"
  using walkFn_enqueues_iff [of "\<lparr> stopWalk = False, ch = [], log = [] \<rparr>" literalGlob STD_EXC_DIRS 100
      "''repo/link''" "\<lparr> Size = 9, Mode = ModeSymlink \<rparr>"
      "fst (walkFn literalGlob STD_EXC_DIRS 100 \<lparr> stopWalk = False, ch = [], log = [] \<rparr>
             ''repo/link'' (Some \<lparr> Size = 9, Mode = ModeSymlink \<rparr>) None)"
      "snd (walkFn literalGlob STD_EXC_DIRS 100 \<lparr> stopWalk = False, ch = [], log = [] \<rparr>
             ''repo/link'' (Some \<lparr> Size = 9, Mode = ModeSymlink \<rparr>) None)"]
  by (simp add: IsDir_def)

lemma walkFn_stopped_or_error_sends_nothing:
  "stopWalk w \<or> err \<noteq> None \<Longrightarrow> ch (fst (walkFn gm exc limitMb w pathname info err)) = ch w"
  by (auto simp: walkFn_def split: option.splits prod.splits)

text \<open>
  C2 as stated fails: a regular file named \<open>.git\<close> (as a submodule has one) matches the
  default glob \<open>.git\<close> by its base name and is sent all the same, and so is a symbolic
  link, which is not a regular file.
\<close>

theorem processPath_enqueues_excluded_and_irregular:
  "fst (processPath literalGlob (regular 20) ''repo/sub/.git'' [] STD_EXC_DIRS (100 * MEGABYTE))
     = [\<lparr> Path = ''repo/sub/.git'', Info = regular 20 \<rparr>] \<and>
   literalGlob ''.git'' (Base ''repo/sub/.git'') \<and> ''.git'' \<in> set STD_EXC_DIRS \<and>
   fst (processPath literalGlob \<lparr> Size = 9, Mode = ModeSymlink \<rparr> ''repo/link'' [] STD_EXC_DIRS
          (100 * MEGABYTE))
     = [\<lparr> Path = ''repo/link'', Info = \<lparr> Size = 9, Mode = ModeSymlink \<rparr> \<rparr>]"
  by (simp add: processPath_def literalGlob_def regular_def STD_EXC_DIRS_def MEGABYTE_def
      IsDir_def Base_def)


lemma terminated_upToNL:
  "terminated acc s =
     (case upToNL s of None \<Rightarrow> [] | Some (l, rest) \<Rightarrow> (acc @ l) # terminated [] rest)"
  by (induction s arbitrary: acc) (auto split: option.splits)

lemma scan_complete:
  "\<not> failing rd \<Longrightarrow> length (terminated [] (pending rd)) < fuel \<Longrightarrow>
   scan fuel (Some re) rd
     = Some (if list_ex re (terminated [] (pending rd)) then Matched else NoMatch)"
proof (induction fuel arbitrary: rd)
  case 0
  then show ?case by simp
next
  case (Suc fuel)
  show ?case
  proof (cases "upToNL (pending rd)")
    case None
    then show ?thesis using Suc.prems
      by (simp add: ReadBytes_def terminated_upToNL [of "[]" "pending rd"])
  next
    case (Some a)
    obtain l rest where a: "a = (l, rest)" by (cases a)
    have t: "terminated [] (pending rd) = l # terminated [] rest"
      using Some a by (simp add: terminated_upToNL [of "[]" "pending rd"])
    have "scan fuel (Some re) (rd\<lparr>pending := rest\<rparr>)
            = Some (if list_ex re (terminated [] rest) then Matched else NoMatch)"
      using Suc.IH [of "rd\<lparr>pending := rest\<rparr>"] Suc.prems t by simp
    then show ?thesis using Some a t by (simp add: ReadBytes_def)
  qed
qed

lemma scan_failing_loops:
  "failing rd \<Longrightarrow> upToNL (pending rd) = None \<Longrightarrow> \<not> re (pending rd) \<Longrightarrow> \<not> re [] \<Longrightarrow>
   scan fuel (Some re) rd = None"
proof (induction fuel arbitrary: rd)
  case 0
  then show ?case by simp
next
  case (Suc fuel)
  have "scan fuel (Some re) (rd\<lparr>pending := []\<rparr>) = None"
    using Suc.IH [of "rd\<lparr>pending := []\<rparr>"] Suc.prems by simp
  then show ?case using Suc.prems by (simp add: ReadBytes_def)
qed

lemma scan_nil:
  "scan (Suc fuel) None rd
     = Some (if snd (fst (ReadBytes rd)) = Some EOF then NoMatch else NilDeref)"
  by (simp split: prod.splits)

lemma scan_mono: "scan fuel r rd = Some x \<Longrightarrow> scan (fuel + k) r rd = Some x"
proof (induction fuel arbitrary: rd)
  case 0
  then show ?case by simp
next
  case (Suc fuel)
  then show ?case
    by (auto split: prod.splits option.splits if_splits)
qed

lemma handleEntry_open_error:
  "opn (Path e) = None \<Longrightarrow> handleEntry fuel opn r e = Some ([], False)"
  by (simp add: handleEntry_def Let_def)

lemma handlePath_failure_skips:
  "stat name = None \<or> opn name = None \<or> (\<exists>file. opn name = Some file \<and> failing file)
     \<Longrightarrow> handlePath stat opn r name = ([], False)"
  by (auto simp: handlePath_def ReadFile_def split: option.splits)

text \<open>
  C3: \<open>-ctx\<close> sets \<open>matchContext\<close>, but \<open>Run\<close> has no parameter for it and the loop of
  \<open>handler\<close> leaves a file at its first matching line: a file with two matching lines
  gives one Match event.
\<close>

theorem Run_reports_first_match_only:
  "Run (oneFile ''foo\<newline>foo\<newline>'') 3 100 False True ''repo'' ''foo'' STD_EXC_DIRS (100 * MEGABYTE)
     = Some (Returns, [PrintHandler ''repo/a.txt'' MatchMessage]) \<and>
   filter (contains ''foo'') (terminated [] ''foo\<newline>foo\<newline>'') = [''foo\<newline>'', ''foo\<newline>''] \<and>
   map_option matchContext (ParseArgs [OptCtx True] [''foo'', ''repo'']) = Some True"
  by (simp add: Run_def oneFile_def Walk_def walkFn_def processPath_def literalGlob_def
      literalCompile_def metachars_def directory_def regular_def complete_def IsDir_def
      IsRegular_def STD_EXC_DIRS_def MEGABYTE_def Base_def Join_def Clean_def handleEntry_def
      ReadBytes_def NL_def ParseArgs_def Parse_def declared_def Flags.defs
      numeral_3_eq_3)

text \<open>
  C7: a failure of \<open>os.Open\<close> skips the entry, but a failure of a read does not. The
  loop tests only for \<open>io.EOF\<close>: the bytes read before the failure are matched, so a
  Match event can be logged, and otherwise the read is tried again; when it keeps
  failing the loop never ends and the worker never receives its next entry.
\<close>

theorem handler_read_failure_not_skipped:
  "handleEntry (Suc fuel) (\<lambda>name. Some \<lparr> pending = ''foo'', failing = True \<rparr>)
       (Some (contains ''foo'')) \<lparr> Path = ''a.txt'', Info = regular 3 \<rparr>
     = Some ([PrintHandler ''a.txt'' MatchMessage], False) \<and>
   handler fuel (\<lambda>name. Some \<lparr> pending = ''bar'', failing = True \<rparr>)
       (Some (contains ''foo'')) (\<lparr> Path = ''a.txt'', Info = regular 3 \<rparr> # es)
     = None"
proof
  show "handleEntry (Suc fuel) (\<lambda>name. Some \<lparr> pending = ''foo'', failing = True \<rparr>)
       (Some (contains ''foo'')) \<lparr> Path = ''a.txt'', Info = regular 3 \<rparr>
     = Some ([PrintHandler ''a.txt'' MatchMessage], False)"
    by (simp add: handleEntry_def regular_def IsRegular_def ReadBytes_def NL_def)
  have "scan fuel (Some (contains ''foo'')) \<lparr> pending = ''bar'', failing = True \<rparr> = None"
    by (rule scan_failing_loops) (simp_all add: NL_def)
  then show "handler fuel (\<lambda>name. Some \<lparr> pending = ''bar'', failing = True \<rparr>)
       (Some (contains ''foo'')) (\<lparr> Path = ''a.txt'', Info = regular 3 \<rparr> # es) = None"
    by (simp add: handleEntry_def regular_def IsRegular_def)
qed

lemma handleEntry_nil: "handleEntry (Suc fuel) opn None e = Some ([], tested opn e)"
  by (auto simp: handleEntry_def tested_def Let_def split: option.splits prod.splits)

lemma handler_nil: "handler (Suc fuel) opn None es = Some ([], list_ex (tested opn) es)"
  by (induction es) (auto simp: handleEntry_nil simp del: scan.simps split: bool.splits)

text \<open>
  C10: when \<open>regexp.Compile\<close> rejects the pattern, \<open>Run\<close> drops the error and goes on
  with the nil result. The walk is unchanged and nothing is reported; the workers log no
  match, and the run panics as soon as one entry is tested, that is at the first call
  of \<open>r.Match\<close>. It returns only when no entry of the channel is tested.
\<close>

theorem Run_nil_matcher:
  assumes "Compile env (if ci then ''(?i)'' @ pat else pat) = None"
    and "0 < nw"
    and "Walk root (Tree env) (walkFn (Match env) exc lim)
           \<lparr> stopWalk = False, ch = [], log = [] \<rparr> = (w, err)"
    and "err \<noteq> Exit1" and "err \<noteq> NilPanic"
  shows "Run env (Suc fuel) nw ci colors root pat exc lim
     = Some (if list_ex (tested (Open env)) (ch w) then Panics else Returns, log w)"
  using assms by (simp add: Run_def handler_nil del: handler.simps scan.simps)

theorem Run_nil_matcher_witness:
  "Run (oneFile ''foo\<newline>'') 1 100 False True ''repo'' ''('' STD_EXC_DIRS (100 * MEGABYTE)
     = Some (Panics, []) \<and> literalCompile ''('' = None"
proof -
  have c: "Compile (oneFile ''foo\<newline>'') (if False then ''(?i)'' @ ''('' else ''('') = None"
    by (simp add: oneFile_def literalCompile_def metachars_def)
  have w: "Walk ''repo'' (Tree (oneFile ''foo\<newline>''))
      (walkFn (Match (oneFile ''foo\<newline>'')) STD_EXC_DIRS (100 * MEGABYTE))
           \<lparr> stopWalk = False, ch = [], log = [] \<rparr>
     = (\<lparr> stopWalk = False, ch = [\<lparr> Path = ''repo/a.txt'', Info = regular 4 \<rparr>], log = [] \<rparr>, RetNil)"
    by (simp add: oneFile_def Walk_def walkFn_def processPath_def literalGlob_def
      directory_def regular_def IsDir_def STD_EXC_DIRS_def MEGABYTE_def Base_def Join_def Clean_def)
  have t: "tested (Open (oneFile ''foo\<newline>'')) \<lparr> Path = ''repo/a.txt'', Info = regular 4 \<rparr>"
    by (simp add: tested_def oneFile_def regular_def IsRegular_def complete_def ReadBytes_def NL_def)
  show ?thesis
    using Run_nil_matcher [OF c _ w, of 100 0 True] t
    by (simp add: literalCompile_def metachars_def)
qed


lemma walkNames_Exit1:
  "walk fn (Join path name) child w = (w1, Exit1) \<Longrightarrow>
   walkNames fn path ((name, child) # names) w = (w1, Exit1)"
  by simp

lemma walk_Dir_Exit1:
  "fn w path (Some info) None = (w1, RetNil) \<Longrightarrow> walkNames fn path names w1 = (w2, Exit1) \<Longrightarrow>
   walk fn path (Dir info names) w = (w2, Exit1)"
  by simp

lemma Run_Exit1:
  "0 \<le> nw \<Longrightarrow>
   Walk root (Tree env) (walkFn (Match env) exc lim) \<lparr> stopWalk = False, ch = [], log = [] \<rparr>
     = (w, Exit1) \<Longrightarrow>
   Run env fuel nw ci colors root pat exc lim = Some (Exits, log w)"
  by (simp add: Run_def)



lemma walkFn_file:
  "\<not> stopWalk w \<Longrightarrow> \<not> IsDir info \<Longrightarrow>
   walkFn gm exc lim w path (Some info) None
     = (w\<lparr>ch := ch w @ scanned gm exc lim path (File info)\<rparr>, RetNil)"
  by (simp add: walkFn_def processPath_def skipsDir_iff)

lemma walkFn_dir:
  "\<not> stopWalk w \<Longrightarrow> IsDir info \<Longrightarrow>
   walkFn gm exc lim w path (Some info) None
     = (w, if excludedDir gm exc path then RetSkipDir else RetNil)"
  by (simp add: walkFn_def processPath_def skipsDir_iff excludedDir_def)

lemma walkFn_dir_error:
  "\<not> stopWalk w \<Longrightarrow> IsDir info \<Longrightarrow> \<not> IsNotExist e \<Longrightarrow>
   walkFn gm exc lim w path (Some info) (Some e)
     = (w\<lparr>log := log w @ [PrintHandler path ErrorMatchMessage,
                            PrintHandler (Error e) TextMessage]\<rparr>, RetSkipDir)"
  by (simp add: walkFn_def handlePathError_def)

lemma after_simps [simp]:
  "stopWalk (after w es calls) = stopWalk w"
  "ch (after w es calls) = ch w @ es"
  "log (after w es calls) = log w @ calls"
  "after w [] [] = w"
  "after (after w es calls) es' calls' = after w (es @ es') (calls @ calls')"
  by (simp_all add: after_def)

lemma walk_benign:
  "benign node \<Longrightarrow> \<not> stopWalk w \<Longrightarrow>
     \<exists>ret. walk (walkFn gm exc lim) path node w
              = (after w (scanned gm exc lim path node) (reported gm exc path node), ret)
         \<and> (ret = RetNil \<or>
            ret = RetSkipDir \<and> (case infoOf node of None \<Rightarrow> True | Some fi \<Rightarrow> IsDir fi))"
  and walkNames_benign:
  "benignNames names \<Longrightarrow> \<not> stopWalk w \<Longrightarrow>
     walkNames (walkFn gm exc lim) path names w
       = (after w (scannedNames gm exc lim path names) (reportedNames gm exc path names), RetNil)"
proof (induction node and names arbitrary: w path and w path rule: benign_benignNames.induct)
  case (1 info)
  then show ?case by (simp add: walkFn_file after_def)
next
  case (2 info names)
  then show ?case by (simp add: walkFn_dir)
next
  case (3 info e)
  then show ?case 
    by (simp add: walkFn_dir_error after_def)
next
  case (4 e)
  then show ?case by simp
next
  case 5
  then show ?case by simp
next
  case (6 name child names)
  from 6 have bc: "benign child" and bn: "benignNames names" by simp_all
  obtain ret where r: "walk (walkFn gm exc lim) (Join path name) child w
              = (after w (scanned gm exc lim (Join path name) child)
                   (reported gm exc (Join path name) child), ret)"
    and rr: "ret = RetNil \<or>
            ret = RetSkipDir \<and> (case infoOf child of None \<Rightarrow> True | Some fi \<Rightarrow> IsDir fi)"
    using "6.IH"(1) [OF bc "6.prems"(2)] by blast
  have s: "\<not> stopWalk (after w (scanned gm exc lim (Join path name) child)
                   (reported gm exc (Join path name) child))"
    using "6.prems"(2) by simp
  show ?case
    using r rr "6.IH"(2) [OF bn s] by auto
qed

lemma handleEntry_readable:
  assumes "readable opn e"
    and "(case opn (Path e) of None \<Rightarrow> 0 | Some file \<Rightarrow> length (terminated [] (pending file)))
           < fuel"
  shows "handleEntry fuel opn (Some re) e
     = Some (if hit opn re e then [PrintHandler (Path e) MatchMessage] else [], False)"
proof (cases "opn (Path e)")
  case None
  then show ?thesis by (simp add: handleEntry_def hit_def Let_def)
next
  case (Some rd)
  with assms have "\<not> failing rd" and "length (terminated [] (pending rd)) < fuel"
    by (simp_all add: readable_def)
  then have "scan fuel (Some re) rd
     = Some (if list_ex re (terminated [] (pending rd)) then Matched else NoMatch)"
    by (rule scan_complete)
  then show ?thesis using Some by (simp add: handleEntry_def hit_def Let_def)
qed

lemma handler_readable:
  "list_all (readable opn) es \<Longrightarrow> fuelFor opn es \<le> fuel \<Longrightarrow>
   handler fuel opn (Some re) es
     = Some (map (\<lambda>e. PrintHandler (Path e) MatchMessage) (filter (hit opn re) es), False)"
proof (induction es)
  case Nil
  then show ?case by simp
next
  case (Cons e es)
  then have r: "readable opn e" and rs: "list_all (readable opn) es" by simp_all
  from Cons.prems have f: "(case opn (Path e) of None \<Rightarrow> 0
                            | Some file \<Rightarrow> length (terminated [] (pending file))) < fuel"
    and fs: "fuelFor opn es \<le> fuel"
    by (simp_all add: fuelFor_def)
  show ?case
    using handleEntry_readable [OF r f, of re] Cons.IH [OF rs fs] by simp
qed

lemma count_match_calls:
  "count_list (map (\<lambda>e. PrintHandler (Path e) MatchMessage) es) (PrintHandler p MatchMessage)
     = length (filter (\<lambda>e. Path e = p) es)"
  by (induction es) auto

lemma one_with_key:
  "distinct (map f es) \<Longrightarrow> e \<in> set es \<Longrightarrow> P e \<Longrightarrow>
   length (filter (\<lambda>x. f x = f e) (filter P es)) = 1"
proof (induction es)
  case Nil
  then show ?case by simp
next
  case (Cons a es)
  show ?case
  proof (cases "a = e")
    case True
    with Cons.prems have "f e \<notin> f ` set es" by simp
    then have "\<And>x. x \<in> set es \<Longrightarrow> f x \<noteq> f e"
      by (metis imageI)
    then have "filter (\<lambda>x. f x = f e) (filter P es) = []"
      by (simp add: filter_empty_conv)
    then show ?thesis using True Cons.prems by simp
  next
    case False
    with Cons.prems have e: "e \<in> set es" and d: "distinct (map f es)" by simp_all
    from Cons.prems e have "f a \<noteq> f e" by auto
    then show ?thesis using Cons.IH [OF d e Cons.prems(3)] by simp
  qed
qed

lemma reported_no_match:
  "PrintHandler p MatchMessage \<notin> set (reported gm exc path node)"
  and reportedNames_no_match:
  "PrintHandler p MatchMessage \<notin> set (reportedNames gm exc path names)"
  by (induction gm exc path node and gm exc path names rule: reported_reportedNames.induct) auto

text \<open>
  C1, as the code has it. Take a tree without fatal path errors, at least one worker, a
  pattern that compiles, and files whose reads do not fail. For every regular file
  among the scanned entries (not a directory, smaller than the limit, below no excluded
  or unreadable directory) that has a newline-terminated line matching the pattern, the
  run returns, given enough fuel, and logs exactly one Match event for the file's path,
  provided the path names one entry only. \<open>Run\<close> has no context mode. The start path is
  any path: the entries carry the paths that \<open>filepath.Join\<close> gives.
\<close>

theorem Run_one_match_per_hit:
  assumes "benign (Tree env)" and "0 < nw"
    and "Compile env (if ci then ''(?i)'' @ pat else pat) = Some re"
    and "es = scanned (Match env) exc lim root (Tree env)"
    and "list_all (readable (Open env)) es" and "distinct (map Path es)"
    and "e \<in> set es" and "hit (Open env) re e"
    and "fuelFor (Open env) es \<le> fuel"
  shows "\<exists>calls. Run env fuel nw ci colors root pat exc lim = Some (Returns, calls)
           \<and> count_list calls (PrintHandler (Path e) MatchMessage) = 1"
proof -
  let ?w0 = "\<lparr> stopWalk = False, ch = [], log = [] \<rparr>"
  let ?rep = "reported (Match env) exc root (Tree env)"
  let ?hits = "map (\<lambda>e. PrintHandler (Path e) MatchMessage) (filter (hit (Open env) re) es)"
  have s: "\<not> stopWalk ?w0" by simp
  obtain ret where w: "walk (walkFn (Match env) exc lim) root (Tree env) ?w0
      = (after ?w0 es ?rep, ret)"
    and ret: "ret = RetNil \<or> ret = RetSkipDir"
    using walk_benign [OF assms(1) s, of "Match env" exc lim root] assms(4) by blast
  have h: "handler fuel (Open env) (Compile env (if ci then ''(?i)'' @ pat else pat)) es
      = Some (?hits, False)"
    using handler_readable [OF assms(5) assms(9)] assms(3) by simp
  have run: "Run env fuel nw ci colors root pat exc lim = Some (Returns, ?rep @ ?hits)"
    using w ret h assms(2) by (auto simp: Run_def Walk_def)
  have "count_list ?hits (PrintHandler (Path e) MatchMessage) = 1"
    using one_with_key [where f = Path and P = "hit (Open env) re", OF assms(6) assms(7) assms(8)]
    by (simp add: count_match_calls)
  moreover have "count_list ?rep (PrintHandler (Path e) MatchMessage) = 0"
    using reported_no_match by (simp add: count_list_0_iff)
  ultimately have "count_list (?rep @ ?hits) (PrintHandler (Path e) MatchMessage) = 1"
    by simp
  with run show ?thesis by blast
qed

theorem Run_one_match_per_hit_witness:
  "\<exists>calls. Run (oneFile ''foo\<newline>'') 3 100 False True ''./repo'' ''foo'' STD_EXC_DIRS
              (100 * MEGABYTE) = Some (Returns, calls)
           \<and> count_list calls (PrintHandler ''repo/a.txt'' MatchMessage) = 1"
proof -
  let ?env = "oneFile ''foo\<newline>''"
  let ?e = "\<lparr> Path = ''repo/a.txt'', Info = regular 4 \<rparr>"
  have b: "benign (Tree ?env)"
    by (simp add: oneFile_def directory_def regular_def IsDir_def)
  have c: "Compile ?env (if False then ''(?i)'' @ ''foo'' else ''foo'') = Some (contains ''foo'')"
    by (simp add: oneFile_def literalCompile_def metachars_def)
  have es: "[?e] = scanned (Match ?env) STD_EXC_DIRS (100 * MEGABYTE) ''./repo'' (Tree ?env)"
    by (simp add: oneFile_def directory_def regular_def IsDir_def excludedDir_def
        literalGlob_def STD_EXC_DIRS_def MEGABYTE_def Base_def Join_def Clean_def)
  have r: "list_all (readable (Open ?env)) [?e]"
    by (simp add: readable_def oneFile_def complete_def)
  have d: "distinct (map Path [?e])" by simp
  have m: "?e \<in> set [?e]" by simp
  have h: "hit (Open ?env) (contains ''foo'') ?e"
    by (simp add: hit_def oneFile_def complete_def regular_def IsRegular_def NL_def)
  have f: "fuelFor (Open ?env) [?e] \<le> 3"
    by (simp add: fuelFor_def oneFile_def complete_def NL_def)
  have p: "(0::int) < 100" by simp
  show ?thesis
    using Run_one_match_per_hit [OF b p c es r d m h f, of True] by simp
qed

text \<open>
  C1 as stated fails: the content of \<open>repo/a.txt\<close> matches the pattern, which spans the
  end of the first line, but the worker tests the lines one by one and none of them
  matches; the run logs no Match event.
\<close>

theorem Run_misses_match_across_lines:
  "Run (oneFile ''a\<newline>b\<newline>'') 3 100 False True ''repo'' ''a\<newline>b'' STD_EXC_DIRS (100 * MEGABYTE)
     = Some (Returns, []) \<and>
   contains ''a\<newline>b'' ''a\<newline>b\<newline>'' \<and>
   literalCompile ''a\<newline>b'' = Some (contains ''a\<newline>b'')"
  by (simp add: Run_def oneFile_def Walk_def walkFn_def processPath_def literalGlob_def
      literalCompile_def metachars_def directory_def regular_def complete_def IsDir_def
      IsRegular_def STD_EXC_DIRS_def MEGABYTE_def Base_def Join_def Clean_def handleEntry_def
      ReadBytes_def NL_def numeral_3_eq_3)

text \<open>
  The same happens to a last line without newline: \<open>ReadBytes\<close> returns it together with
  \<open>io.EOF\<close>, and the loop leaves on \<open>io.EOF\<close> before it tests the line.
\<close>

lemma Run_misses_unterminated_last_line:
  "Run (oneFile ''foo'') 3 100 False True ''repo'' ''foo'' STD_EXC_DIRS (100 * MEGABYTE)
     = Some (Returns, []) \<and>
   contains ''foo'' ''foo''"
  by (simp add: Run_def oneFile_def Walk_def walkFn_def processPath_def literalGlob_def
      literalCompile_def metachars_def directory_def regular_def complete_def IsDir_def
      IsRegular_def STD_EXC_DIRS_def MEGABYTE_def Base_def Join_def Clean_def handleEntry_def
      ReadBytes_def NL_def numeral_3_eq_3)

text \<open>
  The paths of a run are the cleaned ones whatever the start path: from \<open>./repo\<close> the
  match is logged for \<open>repo/a.txt\<close>, and the glob \<open>repo/vendor\<close> excludes the directory
  \<open>vendor\<close> by its full path, so that the file below it is not scanned.
\<close>

lemma Run_from_unclean_start_path:
  "Run (oneFile ''foo\<newline>'') 3 100 False True ''./repo'' ''foo'' STD_EXC_DIRS (100 * MEGABYTE)
     = Some (Returns, [PrintHandler ''repo/a.txt'' MatchMessage]) \<and>
   Run \<lparr> Compile = literalCompile, Match = literalGlob, Tree = vendorTree,
         Open = (\<lambda>name. Some (complete ''foo\<newline>'')) \<rparr>
       3 100 False True ''./repo'' ''foo'' [''repo/vendor''] (100 * MEGABYTE)
     = Some (Returns, []) \<and>
   scanned literalGlob [''repo/vendor''] (100 * MEGABYTE) ''./repo'' vendorTree = []"
  by (simp add: Run_def oneFile_def vendorTree_def Walk_def walkFn_def processPath_def
      literalGlob_def literalCompile_def metachars_def directory_def regular_def complete_def
      IsDir_def IsRegular_def STD_EXC_DIRS_def MEGABYTE_def Base_def Join_def Clean_def
      handleEntry_def ReadBytes_def NL_def excludedDir_def numeral_3_eq_3)

lemma walkFn_stopWalk: "walkFn gm exc lim w pathname info err = (w1, ret) \<Longrightarrow> stopWalk w1 = stopWalk w"
  by (auto simp: walkFn_def split: if_splits option.splits prod.splits)

lemma step_stopWalk:
  "step c l s = Some s1 \<Longrightarrow> stopWalk s1 = (stopWalk s \<or> l = Signal)"
  by (cases l)
    (auto split: if_splits option.splits prod.splits list.splits walkret.splits
          dest: walkFn_stopWalk)

lemma flips_bound: "flips c ls s \<le> (if stopWalk s then 0 else 1)"
proof (induction ls arbitrary: s)
  case Nil
  then show ?case by simp
next
  case (Cons l ls)
  show ?case
  proof (cases "step c l s")
    case None
    then show ?thesis by simp
  next
    case (Some s1)
    from step_stopWalk [OF Some] Cons.IH [of s1] Some show ?thesis
      by (auto split: if_splits)
  qed
qed

lemma resets_none: "resets c ls s = 0"
proof (induction ls arbitrary: s)
  case Nil
  then show ?case by simp
next
  case (Cons l ls)
  show ?case
  proof (cases "step c l s")
    case None
    then show ?thesis by simp
  next
    case (Some s1)
    from step_stopWalk [OF Some] Cons.IH [of s1] Some show ?thesis
      by auto
  qed
qed

lemma exec_stopWalk:
  "exec c ls s = Some s2 \<Longrightarrow> stopWalk s2 = (stopWalk s \<or> Signal \<in> set ls)"
proof (induction ls arbitrary: s)
  case Nil
  then show ?case by simp
next
  case (Cons l ls)
  then obtain s1 where s1: "step c l s = Some s1" and e: "exec c ls s1 = Some s2"
    by (auto split: option.splits)
  from step_stopWalk [OF s1] Cons.IH [OF e] show ?case by auto
qed

lemma walkFn_more: "walkFn gm exc lim w pathname info err = (w1, ret) \<Longrightarrow> sigWaiting w1 = sigWaiting w"
  by (auto simp: walkFn_def split: if_splits option.splits prod.splits)

lemma step_sigWaiting:
  "step c l s = Some s1 \<Longrightarrow> sigWaiting s1 = (sigWaiting s \<and> l \<noteq> Signal) \<and> (l = Signal \<longrightarrow> sigWaiting s)"
  by (cases l)
    (auto split: if_splits option.splits prod.splits list.splits walkret.splits
          dest: walkFn_more)

lemma exec_one_signal:
  "exec c ls s = Some s2 \<Longrightarrow> count_list ls Signal \<le> (if sigWaiting s then 1 else 0)"
proof (induction ls arbitrary: s)
  case Nil
  then show ?case by simp
next
  case (Cons l ls)
  then obtain s1 where s1: "step c l s = Some s1" and e: "exec c ls s1 = Some s2"
    by (auto split: option.splits)
  from step_sigWaiting [OF s1] Cons.IH [OF e] show ?case by (auto split: if_splits)
qed

text \<open>
  C8: the stop flag is false when the workers start; a step leaves it as it was unless
  the step is the delivery of the signal, which sets it; so in every run it goes
  from false to true at most once and never back, the signal is delivered at most once,
  and the flag is set at the end exactly when the signal was delivered.
\<close>

theorem stopWalk_monotonic:
  "\<not> stopWalk (start c) \<and>
   (step c l s = Some s1 \<longrightarrow> stopWalk s1 = (stopWalk s \<or> l = Signal)) \<and>
   (exec c ls (start c) = Some s2 \<longrightarrow>
      flips c ls (start c) \<le> 1 \<and> resets c ls (start c) = 0 \<and>
      count_list ls Signal \<le> 1 \<and> stopWalk s2 = (Signal \<in> set ls))"
proof (intro conjI impI)
  show "\<not> stopWalk (start c)" by (simp add: start_def)
  show "stopWalk s1 = (stopWalk s \<or> l = Signal)" if "step c l s = Some s1"
    using that by (rule step_stopWalk)
  show "flips c ls (start c) \<le> 1"
    using flips_bound [of c ls "start c"] by (simp split: if_splits)
  show "resets c ls (start c) = 0" by (rule resets_none)
  show "count_list ls Signal \<le> 1" if "exec c ls (start c) = Some s2"
    using exec_one_signal [OF that] by (simp split: if_splits)
  show "stopWalk s2 = (Signal \<in> set ls)" if "exec c ls (start c) = Some s2"
    using exec_stopWalk [OF that] by (simp add: start_def)
qed

lemma exec_interrupted:
  "exec twoWorkers interrupted (start twoWorkers)
     = Some \<lparr> stopWalk = True, ch = [],
              log = [PrintHandler ''repo/a.txt'' MatchMessage,
                     PrintHandler ''Ended by user'' TextMessage],
              sigWaiting = False, toSend = 0, closeSignalChan = 0, closeSignalClosed = True,
              chClosed = True, walking = False, running = 0, stuck = 0,
              ended = Some Returns \<rparr>"
  by (simp add: twoWorkers_def interrupted_def start_def walkFn_def processPath_def
      literalGlob_def directory_def regular_def complete_def IsDir_def IsRegular_def
      STD_EXC_DIRS_def Base_def handleEntry_def ReadBytes_def NL_def numeral_3_eq_3)

theorem stopWalk_monotonic_witness:
  "exec twoWorkers interrupted (start twoWorkers) \<noteq> None \<and>
   flips twoWorkers interrupted (start twoWorkers) \<le> 1 \<and>
   resets twoWorkers interrupted (start twoWorkers) = 0 \<and>
   stopWalk (the (exec twoWorkers interrupted (start twoWorkers)))"
  using stopWalk_monotonic [where c = twoWorkers and ls = interrupted
      and ?s2.0 = "the (exec twoWorkers interrupted (start twoWorkers))"] exec_interrupted
  by (simp add: interrupted_def)

lemma walkFn_effect:
  "walkFn gm exc lim w pathname info err = (w1, ret) \<Longrightarrow>
   \<exists>es calls. w1 = w\<lparr>ch := ch w @ es, log := log w @ calls\<rparr>
     \<and> (\<forall>p. PrintHandler p MatchMessage \<notin> set calls)"
  apply (cases "stopWalk w")
   apply (rule exI [of _ "[]"], rule exI [of _ "[]"])
   apply (simp add: walkFn_def)
  apply (cases err)
   apply (cases info)
    apply (rule exI [of _ "[]"], rule exI [of _ "[]"])
    apply (simp add: walkFn_def)
   apply (rule exI [of _ "drop (length (ch w)) (ch w1)"], rule exI [of _ "[]"])
   apply (auto simp: walkFn_def processPath_def Let_def split: if_splits)[1]
  apply (rule exI [of _ "[]"])
  apply (auto simp: walkFn_def handlePathError_def Let_def split: if_splits option.splits)
  done

lemma handleEntry_calls:
  "handleEntry fuel opn r e = Some (calls, panicked) \<Longrightarrow>
   calls = [] \<and> (calls, panicked) \<noteq> ([PrintHandler (Path e) MatchMessage], False)
   \<or> (calls, panicked) = ([PrintHandler (Path e) MatchMessage], False)"
  by (auto simp: handleEntry_def Let_def split: if_splits option.splits scanres.splits)

lemma step_tally:
  assumes "step c l s = Some s1"
  shows "tally c p (log s1) (ch s1)
     = tally c p (log s) (ch s) + length (filter (\<lambda>e. Path e = p \<and> emits c e)
                                             (drop (length (ch s)) (ch s1)))"
proof (cases l)
  case (Visit pathname info err)
  obtain w1 ret where w: "walkFn (glob c) (excluded c) (limit c) s pathname info err = (w1, ret)"
    by (cases "walkFn (glob c) (excluded c) (limit c) s pathname info err")
  from walkFn_effect [OF w] obtain es calls where
    w1: "w1 = s\<lparr>ch := ch s @ es, log := log s @ calls\<rparr>"
    and nm: "\<forall>p. PrintHandler p MatchMessage \<notin> set calls" by blast
  have c0: "count_list calls (PrintHandler p MatchMessage) = 0"
    using nm by (simp add: count_list_0_iff)
  from assms Visit w have "ch s1 = ch w1 \<and> log s1 = log w1"
    by (auto split: if_splits walkret.splits)
  then show ?thesis using w1 c0 by (simp add: tally_def)
next
  case Receive
  show ?thesis
  proof (cases "ch s")
    case Nil
    with assms Receive show ?thesis by (simp split: if_splits)
  next
    case (Cons e es)
    show ?thesis
    proof (cases "handleEntry (patience c) (osOpen c) (compiled c) e")
      case None
      with assms Receive Cons show ?thesis
        by (auto simp: tally_def emits_def split: if_splits)
    next
      case (Some a)
      obtain calls panicked where a: "a = (calls, panicked)" by (cases a)
      from handleEntry_calls [OF Some [unfolded a]] assms Receive Cons Some a show ?thesis
        by (auto simp: tally_def emits_def split: if_splits)
    qed
  qed
qed (insert assms, auto simp: tally_def split: if_splits)

lemma exec_tally:
  "exec c ls s = Some s2 \<Longrightarrow>
   tally c p (log s2) (ch s2)
     = tally c p (log s) (ch s) + length (filter (\<lambda>e. Path e = p \<and> emits c e) (sent c ls s))"
proof (induction ls arbitrary: s)
  case Nil
  then show ?case by simp
next
  case (Cons l ls)
  then obtain s1 where s1: "step c l s = Some s1" and e: "exec c ls s1 = Some s2"
    by (auto split: option.splits)
  from step_tally [OF s1, of p] Cons.IH [OF e] s1 show ?case by simp
qed

lemma step_quiet:
  assumes "step c l s = Some s1" and "l \<noteq> Signal" and "quiet c s"
  shows "quiet c s1"
proof (cases l)
  case (Visit pathname info err)
  obtain w1 ret where w: "walkFn (glob c) (excluded c) (limit c) s pathname info err = (w1, ret)"
    by (cases "walkFn (glob c) (excluded c) (limit c) s pathname info err")
  from walkFn_effect [OF w] obtain es calls where
    w1: "w1 = s\<lparr>ch := ch s @ es, log := log s @ calls\<rparr>" by blast
  from assms Visit w w1 show ?thesis
    by (auto simp: quiet_def split: if_splits walkret.splits)
next
  case Receive
  with assms show ?thesis
    by (auto simp: quiet_def split: if_splits list.splits option.splits)
qed (insert assms, auto simp: quiet_def split: if_splits)

lemma exec_quiet:
  "exec c ls s = Some s2 \<Longrightarrow> Signal \<notin> set ls \<Longrightarrow> quiet c s \<Longrightarrow> quiet c s2"
proof (induction ls arbitrary: s)
  case Nil
  then show ?case by simp
next
  case (Cons l ls)
  then obtain s1 where s1: "step c l s = Some s1" and e: "exec c ls s1 = Some s2"
    by (auto split: option.splits)
  from Cons.prems have "l \<noteq> Signal" and n: "Signal \<notin> set ls" by auto
  from step_quiet [OF s1 this(1) Cons.prems(3)] Cons.IH [OF e n] show ?case by simp
qed

lemma quiet_start: "quiet c (start c)"
  by (simp add: quiet_def start_def)

lemma emits_hit:
  assumes "compiled c = Some re" and "readable (osOpen c) e"
    and "fuelFor (osOpen c) [e] \<le> patience c"
  shows "emits c e = hit (osOpen c) re e"
proof -
  from assms(3) have "(case osOpen c (Path e) of None \<Rightarrow> 0
                       | Some rd \<Rightarrow> length (terminated [] (pending rd))) < patience c"
    by (simp add: fuelFor_def)
  from handleEntry_readable [OF assms(2) this, of re] assms(1) show ?thesis
    by (simp add: emits_def)
qed

text \<open>
  The order in which the goroutines run does not matter to the Match events: in every
  run of the interleaved model that no signal interrupts and that returns, with at
  least one worker, the Match events for a path are as many as the entries sent for
  that path that emit.
\<close>

theorem uninterrupted_run_matches:
  assumes "exec c ls (start c) = Some s2" and "Signal \<notin> set ls"
    and "ended s2 = Some Returns" and "0 < nworkers c"
  shows "count_list (log s2) (PrintHandler p MatchMessage)
     = length (filter (\<lambda>e. Path e = p \<and> emits c e) (sent c ls (start c)))"
proof -
  have "quiet c s2" using exec_quiet [OF assms(1) assms(2) quiet_start] .
  with assms(3) assms(4) have "ch s2 = []" by (auto simp: quiet_def)
  then show ?thesis
    using exec_tally [OF assms(1), of p] by (simp add: tally_def start_def)
qed

lemma exec_append:
  "exec c (ls @ ls') s = (case exec c ls s of None \<Rightarrow> None | Some s1 \<Rightarrow> exec c ls' s1)"
  by (induction ls arbitrary: s) (auto split: option.splits)

lemma exec_trail:
  "benign node \<Longrightarrow> \<not> stopWalk s \<Longrightarrow> ended s = None \<Longrightarrow> walking s \<Longrightarrow>
   length (ch s) + length (scanned (glob c) (excluded c) (limit c) path node) \<le> 5000 \<Longrightarrow>
   exec c (trail (glob c) (excluded c) path node) s
     = Some (after s (scanned (glob c) (excluded c) (limit c) path node)
                     (reported (glob c) (excluded c) path node))"
  and exec_trailNames:
  "benignNames names \<Longrightarrow> \<not> stopWalk s \<Longrightarrow> ended s = None \<Longrightarrow> walking s \<Longrightarrow>
   length (ch s) + length (scannedNames (glob c) (excluded c) (limit c) path names) \<le> 5000 \<Longrightarrow>
   exec c (trailNames (glob c) (excluded c) path names) s
     = Some (after s (scannedNames (glob c) (excluded c) (limit c) path names)
                     (reportedNames (glob c) (excluded c) path names))"
proof (induction node and names arbitrary: s path and s path rule: benign_benignNames.induct)
  case (1 info)
  then show ?case by (simp add: walkFn_file after_def)
next
  case (2 info names)
  show ?case
  proof (cases "excludedDir (glob c) (excluded c) path")
    case True
    with 2 show ?thesis by (simp add: walkFn_dir)
  next
    case False
    with "2.prems" have bn: "benignNames names"
      and l: "length (ch s) + length (scannedNames (glob c) (excluded c) (limit c) path names)
                \<le> 5000"
      by simp_all
    from "2.IH" [OF bn "2.prems"(2,3,4) l] False "2.prems" show ?thesis
      by (simp add: walkFn_dir)
  qed
next
  case (3 info e)
  then show ?case by (simp add: walkFn_dir_error after_def)
next
  case (4 e)
  then show ?case by simp
next
  case 5
  then show ?case by simp
next
  case (6 name child names)
  let ?s1 = "after s (scanned (glob c) (excluded c) (limit c) (Join path name) child)
                     (reported (glob c) (excluded c) (Join path name) child)"
  from 6 have bc: "benign child" and bn: "benignNames names" by simp_all
  have l1: "length (ch s) + length (scanned (glob c) (excluded c) (limit c) (Join path name) child)
              \<le> 5000"
    using "6.prems"(5) by simp
  have e1: "exec c (trail (glob c) (excluded c) (Join path name) child) s = Some ?s1"
    using "6.IH"(1) [OF bc "6.prems"(2,3,4) l1] .
  have p: "\<not> stopWalk ?s1" "ended ?s1 = None" "walking ?s1"
    using "6.prems" by (simp_all add: after_def)
  have l2: "length (ch ?s1) + length (scannedNames (glob c) (excluded c) (limit c) path names)
              \<le> 5000"
    using "6.prems"(5) by simp
  show ?case
    using e1 "6.IH"(2) [OF bn p l2] by (simp add: exec_append)
qed

lemma exec_then:
  "exec c ls s = Some s1 \<Longrightarrow> exec c ls' s1 = Some s2 \<Longrightarrow> exec c (ls @ ls') s = Some s2"
  by (simp add: exec_append)

lemma exec_receives:
  "handler (patience c) (osOpen c) (compiled c) es = Some (calls, False) \<Longrightarrow>
   ch s = es \<Longrightarrow> ended s = None \<Longrightarrow> stuck s < running s \<Longrightarrow>
   exec c (replicate (length es) Receive) s = Some (s\<lparr>ch := [], log := log s @ calls\<rparr>)"
proof (induction es arbitrary: s calls)
  case Nil
  then show ?case by simp
next
  case (Cons e es)
  from Cons.prems(1) obtain c1 c2 where
    h1: "handleEntry (patience c) (osOpen c) (compiled c) e = Some (c1, False)"
    and h2: "handler (patience c) (osOpen c) (compiled c) es = Some (c2, False)"
    and cs: "calls = c1 @ c2"
    by (auto split: option.splits bool.splits)
  let ?s1 = "s\<lparr>ch := es, log := log s @ c1\<rparr>"
  have st: "step c Receive s = Some ?s1"
    using Cons.prems h1 by simp
  have "exec c (replicate (length es) Receive) ?s1 = Some (?s1\<lparr>ch := [], log := log ?s1 @ c2\<rparr>)"
    using Cons.IH [OF h2, of ?s1] Cons.prems by simp
  then show ?case using st cs by simp
qed

lemma exec_drained:
  "ended s = None \<Longrightarrow> stuck s = 0 \<Longrightarrow> ch s = [] \<Longrightarrow> chClosed s \<Longrightarrow> running s = k \<Longrightarrow>
   exec c (replicate k Drained) s = Some (s\<lparr>running := 0\<rparr>)"
proof (induction k arbitrary: s)
  case 0
  then show ?case by simp
next
  case (Suc k)
  let ?s1 = "s\<lparr>running := k\<rparr>"
  have st: "step c Drained s = Some ?s1" using Suc.prems by simp
  have "exec c (replicate k Drained) ?s1 = Some (?s1\<lparr>running := 0\<rparr>)"
    using Suc.IH [of ?s1] Suc.prems by simp
  then show ?case using st by simp
qed

lemma trail_no_Signal:
  "Signal \<notin> set (trail gm exc path node)"
  and trailNames_no_Signal:
  "Signal \<notin> set (trailNames gm exc path names)"
  by (induction gm exc path node and gm exc path names rule: trail_trailNames.induct) auto

text \<open>
  On a tree without fatal errors the schedule is a run of the interleaved model that
  returns with the log of \<open>Run\<close>. The scanned entries are to fit into the channel (5000
  entries), so that no send of this schedule has to wait for a worker.
\<close>

theorem schedule_run:
  assumes "benign tree" and "0 < nworkers c"
    and "length (scanned (glob c) (excluded c) (limit c) root tree) \<le> 5000"
    and "handler (patience c) (osOpen c) (compiled c)
           (scanned (glob c) (excluded c) (limit c) root tree) = Some (calls, False)"
  shows "Signal \<notin> set (schedule c root tree) \<and>
         (\<exists>s2. exec c (schedule c root tree) (start c) = Some s2 \<and> ended s2 = Some Returns \<and>
               log s2 = reported (glob c) (excluded c) root tree @ calls)"
proof
  show "Signal \<notin> set (schedule c root tree)"
    by (simp add: schedule_def trail_no_Signal)
  let ?es = "scanned (glob c) (excluded c) (limit c) root tree"
  let ?rep = "reported (glob c) (excluded c) root tree"
  let ?s1 = "after (start c) ?es ?rep"
  have 1: "exec c (trail (glob c) (excluded c) root tree) (start c) = Some ?s1"
    using exec_trail [OF assms(1), of "start c" c root] assms(3) by (simp add: start_def)
  let ?s2 = "?s1\<lparr>walking := False\<rparr>"
  have 2: "exec c [WalkEnds] ?s1 = Some ?s2" by (simp add: after_def start_def)
  let ?s3 = "?s2\<lparr>ch := [], log := log ?s2 @ calls\<rparr>"
  have 3: "exec c (replicate (length ?es) Receive) ?s2 = Some ?s3"
    using exec_receives [OF assms(4), of ?s2] assms(2) by (simp add: after_def start_def)
  let ?s4 = "?s3\<lparr>chClosed := True\<rparr>"
  have 4: "exec c [CloseCh] ?s3 = Some ?s4" by (simp add: after_def start_def)
  let ?s5 = "?s4\<lparr>running := 0\<rparr>"
  have 5: "exec c (replicate (nworkers c) Drained) ?s4 = Some ?s5"
    using exec_drained [of ?s4 "nworkers c" c] by (simp add: after_def start_def)
  have 6: "exec c [Waited, Finish] ?s5
      = Some (?s5\<lparr>closeSignalClosed := True, ended := Some Returns\<rparr>)"
    by (simp add: after_def start_def)
  have "exec c (schedule c root tree) (start c)
      = Some (?s5\<lparr>closeSignalClosed := True, ended := Some Returns\<rparr>)"
    unfolding schedule_def
    by (rule exec_then [OF 1], rule exec_then [OF 2], rule exec_then [OF 3],
        rule exec_then [OF 4], rule exec_then [OF 5], rule 6)
  then show "\<exists>s2. exec c (schedule c root tree) (start c) = Some s2 \<and> ended s2 = Some Returns \<and>
               log s2 = reported (glob c) (excluded c) root tree @ calls"
    by (simp add: after_def start_def)
qed

text \<open>
  So what \<open>Run\<close> returns on such a tree is what one of the interleavings returns; by
  \<open>uninterrupted_run_matches\<close> every other one that returns has the same Match events.
\<close>

theorem Run_is_an_interleaved_run:
  assumes "Run env fuel nw ci colors root pat exc lim = Some (Returns, calls)"
    and "benign (Tree env)" and "0 < nw"
    and "length (scanned (Match env) exc lim root (Tree env)) \<le> 5000"
    and "c = configOf env fuel nw ci pat exc lim"
  shows "\<exists>ls s2. Signal \<notin> set ls \<and> exec c ls (start c) = Some s2 \<and>
           ended s2 = Some Returns \<and> log s2 = calls"
proof -
  let ?w0 = "\<lparr> stopWalk = False, ch = [], log = [] \<rparr>"
  let ?es = "scanned (Match env) exc lim root (Tree env)"
  let ?rep = "reported (Match env) exc root (Tree env)"
  have s: "\<not> stopWalk ?w0" by simp
  obtain ret where w: "walk (walkFn (Match env) exc lim) root (Tree env) ?w0
      = (after ?w0 ?es ?rep, ret)"
    and ret: "ret = RetNil \<or> ret = RetSkipDir"
    using walk_benign [OF assms(2) s, of "Match env" exc lim root] by blast
  from assms(1) w ret assms(3) obtain cs where
    h: "handler fuel (Open env) (Compile env (if ci then ''(?i)'' @ pat else pat)) ?es
          = Some (cs, False)"
    and cs: "calls = ?rep @ cs"
    by (auto simp: Run_def Walk_def split: option.splits if_splits)
  have c: "glob c = Match env" "excluded c = exc" "limit c = lim" "osOpen c = Open env"
    "patience c = fuel" "compiled c = Compile env (if ci then ''(?i)'' @ pat else pat)"
    "0 < nworkers c"
    using assms(3,5) by (simp_all add: configOf_def)
  from schedule_run [of "Tree env" c root cs] assms(2,4) h c cs
  show ?thesis by auto
qed

end
